theory Spec2Isabelle
  imports Main "HOL-Library.Sublist"
begin

section \<open>Python values used by draw\_jobs.py\<close>

text \<open>
  Strings are lists of characters; a \<^typ>\<open>char\<close> stands for a code point below 256.
  Every \<^verbatim>\<open>raise\<close> of the program and of the library calls it makes is a value
  \<open>Inl e\<close> of a sum type.
\<close>

datatype py_error = ValueError | AttributeError | OverflowError | KeyError

text \<open>\<^verbatim>\<open>\d\<close> of the \<^verbatim>\<open>re\<close> module, and the digits \<^verbatim>\<open>int()\<close> reads.\<close>

definition is_digit :: "char \<Rightarrow> bool" where
  "is_digit c = (c \<in> set ''0123456789'')"

text \<open>\<^verbatim>\<open>str.isspace\<close> on one character: what \<^verbatim>\<open>strip()\<close> removes.\<close>

definition is_space :: "char \<Rightarrow> bool" where
  "is_space c = ((of_char c :: nat) \<in> set [9, 10, 11, 12, 13, 28, 29, 30, 31, 32, 133, 160])"

text \<open>\<^verbatim>\<open>s.strip()\<close> and \<^verbatim>\<open>s.strip(chars)\<close>: both ends, as many characters as match.\<close>

definition strip_where :: "(char \<Rightarrow> bool) \<Rightarrow> string \<Rightarrow> string" where
  "strip_where p s = rev (dropWhile p (rev (dropWhile p s)))"

definition py_strip :: "string \<Rightarrow> string" where
  "py_strip s = strip_where is_space s"

definition py_strip_chars :: "string \<Rightarrow> string \<Rightarrow> string" where
  "py_strip_chars chars s = strip_where (\<lambda>c. c \<in> set chars) s"

text \<open>
  \<^verbatim>\<open>s.split(sep)\<close> for a non-empty separator: never an empty list, and the empty
  string splits into one empty piece.
\<close>

function py_split :: "string \<Rightarrow> string \<Rightarrow> string list" where
  "py_split sep [] = [[]]"
| "py_split sep (c # cs) =
     (if sep \<noteq> [] \<and> prefix sep (c # cs)
      then [] # py_split sep (drop (length sep) (c # cs))
      else (let r = py_split sep cs in (c # hd r) # tl r))"
  by pat_completeness auto
termination
  by (relation "measure (\<lambda>(sep, s). length s)") (auto simp: neq_Nil_conv)

text \<open>\<^verbatim>\<open>s.find(sub)\<close>: the first index where \<open>sub\<close> starts, or -1.\<close>

fun py_find :: "string \<Rightarrow> string \<Rightarrow> int" where
  "py_find [] sub = (if sub = [] then 0 else -1)"
| "py_find (c # cs) sub =
     (if prefix sub (c # cs) then 0
      else (let i = py_find cs sub in if i < 0 then -1 else i + 1))"

text \<open>\<^verbatim>\<open>s.index(sub)\<close>: as \<^verbatim>\<open>find\<close>, but a missing substring raises.\<close>

definition py_index :: "string \<Rightarrow> string \<Rightarrow> py_error + int" where
  "py_index s sub = (let i = py_find s sub in if i < 0 then Inl ValueError else Inr i)"

text \<open>\<^verbatim>\<open>sub in s\<close> on strings.\<close>

definition py_contains :: "string \<Rightarrow> string \<Rightarrow> bool" where
  "py_contains s sub = (0 \<le> py_find s sub)"

text \<open>\<^verbatim>\<open>s.replace(old, new, 1)\<close>: the leftmost occurrence only.\<close>

fun replace_first :: "string \<Rightarrow> string \<Rightarrow> string \<Rightarrow> string" where
  "replace_first old new [] = (if old = [] then new else [])"
| "replace_first old new (c # cs) =
     (if prefix old (c # cs) then new @ drop (length old) (c # cs)
      else c # replace_first old new cs)"

text \<open>The value of a run of decimal digits.\<close>

definition digits_value :: "string \<Rightarrow> int" where
  "digits_value ds = foldl (\<lambda>n c. 10 * n + (of_char c - 48)) 0 ds"

text \<open>
  \<^verbatim>\<open>int(s)\<close> on a string. The whitespace it drops at both ends is not that of
  \<^verbatim>\<open>strip()\<close>: the separators 28 to 31 stay and make the text invalid. One sign is
  allowed, and single underscores may separate digits. A text with more than 4300
  digits is refused (the interpreter's default limit on integer strings). Every refusal
  is a ValueError.
\<close>

definition is_int_space :: "char \<Rightarrow> bool" where
  "is_int_space c = ((of_char c :: nat) \<in> set [9, 10, 11, 12, 13, 32, 133, 160])"

definition int_max_str_digits :: int where
  "int_max_str_digits = 4300"

fun underscores_ok :: "string \<Rightarrow> bool" where
  "underscores_ok [] = True"
| "underscores_ok [c] = is_digit c"
| "underscores_ok (c # d # cs) =
     ((is_digit c \<or> (c = CHR ''_'' \<and> is_digit d)) \<and> underscores_ok (d # cs))"

definition int_body :: "string \<Rightarrow> py_error + int" where
  "int_body b =
     (if b \<noteq> [] \<and> is_digit (hd b) \<and> underscores_ok b
         \<and> int (length (filter (\<lambda>c. c \<noteq> CHR ''_'') b)) \<le> int_max_str_digits
      then Inr (digits_value (filter (\<lambda>c. c \<noteq> CHR ''_'') b))
      else Inl ValueError)"

definition py_int :: "string \<Rightarrow> py_error + int" where
  "py_int s =
     (case strip_where is_int_space s of
        [] \<Rightarrow> Inl ValueError
      | c # cs \<Rightarrow>
          if c = CHR ''-'' then map_sum id uminus (int_body cs)
          else if c = CHR ''+'' then int_body cs
          else int_body (c # cs))"

subsection \<open>Durations and timestamps\<close>

text \<open>
  A \<^verbatim>\<open>timedelta\<close> is its length in microseconds. The constructor normalises its
  arguments and raises OverflowError when the day count leaves the range of the type
  (\<^verbatim>\<open>timedelta.max\<close> is 999999999 days, 23:59:59.999999).
\<close>

type_synonym timedelta = int

definition us_per_day :: int where
  "us_per_day = 86400000000"

definition timedelta_ok :: "int \<Rightarrow> bool" where
  "timedelta_ok us = (- 999999999 \<le> us div us_per_day \<and> us div us_per_day \<le> 999999999)"

definition timedelta_new :: "int \<Rightarrow> int \<Rightarrow> int \<Rightarrow> int \<Rightarrow> py_error + timedelta" where
  "timedelta_new days hours minutes seconds =
     (let us = (((days * 24 + hours) * 60 + minutes) * 60 + seconds) * 1000000
      in if timedelta_ok us then Inr us else Inl OverflowError)"

section \<open>interval: a time span from its text\<close>

text \<open>
  The pattern of \<^verbatim>\<open>interval\<close> is
  \<^verbatim>\<open>((?P<days>\d+) days, )?(?P<hours>\d+):(?P<minutes>\d+):(?P<seconds>\d+)\<close>,
  matched at the start of the string and not anchored at its end.
  \<open>match_hms\<close> is the part after the optional group; a greedy \<^verbatim>\<open>\d+\<close> takes the
  whole run of digits, and giving digits back cannot help because a digit never matches
  the literal that follows.
\<close>

definition match_hms :: "string \<Rightarrow> (string \<times> string \<times> string) option" where
  "match_hms s =
     (let h = takeWhile is_digit s; r1 = dropWhile is_digit s in
      if h = [] \<or> \<not> prefix '':'' r1 then None
      else
        let m = takeWhile is_digit (tl r1); r2 = dropWhile is_digit (tl r1) in
        if m = [] \<or> \<not> prefix '':'' r2 then None
        else
          let x = takeWhile is_digit (tl r2) in
          if x = [] then None else Some (h, m, x))"

text \<open>
  The groups of the match: days (absent when the optional group did not take part),
  hours, minutes, seconds. The optional group is tried first; when the rest of the
  pattern fails after it, the match is tried again without it.
\<close>

definition match_interval :: "string \<Rightarrow> (string option \<times> string \<times> string \<times> string) option" where
  "match_interval s =
     (let d = takeWhile is_digit s; r = dropWhile is_digit s;
          without = map_option (\<lambda>(h, m, x). (None, h, m, x)) (match_hms s) in
      if d \<noteq> [] \<and> prefix '' days, '' r
      then (case match_hms (drop 7 r) of
              Some (h, m, x) \<Rightarrow> Some (Some d, h, m, x)
            | None \<Rightarrow> without)
      else without)"

text \<open>
  \<^verbatim>\<open>groupdict(0)\<close> puts 0 for a group that did not take part, and \<^verbatim>\<open>int\<close> is
  applied to every entry. A string that does not match makes \<^verbatim>\<open>re.match\<close> return
  None, and \<^verbatim>\<open>.groupdict\<close> on it raises AttributeError.
\<close>

definition int_group :: "string option \<Rightarrow> py_error + int" where
  "int_group g = (case g of None \<Rightarrow> Inr 0 | Some ds \<Rightarrow> py_int ds)"

definition interval :: "string \<Rightarrow> py_error + timedelta" where
  "interval s =
     (case match_interval s of
        None \<Rightarrow> Inl AttributeError
      | Some (d, h, m, x) \<Rightarrow>
          (case int_group d of Inl e \<Rightarrow> Inl e | Inr days \<Rightarrow>
          (case py_int h of Inl e \<Rightarrow> Inl e | Inr hours \<Rightarrow>
          (case py_int m of Inl e \<Rightarrow> Inl e | Inr minutes \<Rightarrow>
          (case py_int x of Inl e \<Rightarrow> Inl e | Inr seconds \<Rightarrow>
             timedelta_new days hours minutes seconds)))))"

section \<open>The job record and its parser\<close>

text \<open>
  A \<^verbatim>\<open>datetime\<close> is a count of microseconds. The format \<^verbatim>\<open>%c\<close> of
  \<^verbatim>\<open>strptime\<close> depends on the locale, so the parse is a parameter: \<open>None\<close> stands
  for its ValueError.
\<close>

type_synonym datetime = int

text \<open>
  \<^verbatim>\<open>job_id\<close> holds either the fragments of the header line or, when there are exactly
  two of them, the trimmed second one. (The class default 0 is overwritten before
  anything reads it.)
\<close>

datatype job_id_value = Id_fragments "string list" | Id_text string

record Job =
  job_id :: job_id_value
  job_name :: string
  job_state :: string
  job_owner :: string
  queue :: string
  nodect :: int
  walltime :: timedelta
  eligible_time :: datetime
  exec_vnode :: "string list"
  start_time :: datetime

text \<open>
  What the parser reads from its surroundings: the module variable \<^verbatim>\<open>NODE_TYPE\<close>,
  the locale's \<^verbatim>\<open>strptime(_, "%c")\<close>, and the two class attributes of \<^verbatim>\<open>Job\<close>
  that were set from \<^verbatim>\<open>datetime.now()\<close> when the class was created.
\<close>

record env =
  NODE_TYPE :: string
  strptime_c :: "string \<Rightarrow> datetime option"
  class_eligible_time :: datetime
  class_start_time :: datetime

text \<open>\<^verbatim>\<open>Job()\<close>: every field is the class attribute.\<close>

definition new_Job :: "env \<Rightarrow> Job" where
  "new_Job E =
     \<lparr> job_id = Id_fragments [], job_name = [], job_state = [], job_owner = [],
       queue = [], nodect = 0, walltime = 0,
       eligible_time = class_eligible_time E, exec_vnode = [],
       start_time = class_start_time E \<rparr>"

text \<open>
  \<^verbatim>\<open>re.match(VAR_RE, line)\<close> with \<^verbatim>\<open>VAR_RE = "    ([^ =]*) = "\<close>: the whole match
  and group 1. The group takes the longest run without blank or equals sign; a shorter
  one would leave a character that cannot match the blank that follows.
\<close>

definition var_match :: "string \<Rightarrow> (string \<times> string) option" where
  "var_match line =
     (if prefix ''    '' line then
        (let name = takeWhile (\<lambda>c. c \<noteq> CHR '' '' \<and> c \<noteq> CHR ''='') (drop 4 line) in
         if prefix '' = '' (drop (4 + length name) line)
         then Some (''    '' @ name @ '' = '', name)
         else None)
      else None)"

text \<open>
  The local variables of \<^verbatim>\<open>job_from_qstat\<close> while it walks the lines. The flag the
  source calls \<^verbatim>\<open>exec_vnode\<close> is \<open>exec_vnode_seen\<close> here, since the record field of
  \<^verbatim>\<open>Job\<close> has that name.
\<close>

record scan =
  job :: Job
  exec_vnode_seen :: bool
  has_stime :: bool
  in_vnode :: bool
  est_vnode :: string

datatype 'a flow = Next 'a | Return_None

text \<open>
  One turn of the loop body (lines 61 to 104). \<open>now\<close> is what \<^verbatim>\<open>datetime.now()\<close>
  answers if this turn asks.
\<close>

definition parse_line :: "env \<Rightarrow> datetime \<Rightarrow> scan \<Rightarrow> string \<Rightarrow> py_error + scan flow" where
  "parse_line E now s0 line =
     (case var_match line of
        Some (whole, varname) \<Rightarrow>
          (let s = s0\<lparr>in_vnode := False\<rparr>;
               rest = replace_first whole [] line in
           if varname = ''Job_Name'' then
             Inr (Next (s\<lparr>job := (job s)\<lparr>job_name := rest\<rparr>\<rparr>))
           else if varname = ''Job_Owner'' then
             Inr (Next (s\<lparr>job := (job s)\<lparr>job_owner := hd (py_split ''@'' rest)\<rparr>\<rparr>))
           else if varname = ''job_state'' then
             Inr (Next (s\<lparr>job := (job s)\<lparr>job_state := rest\<rparr>\<rparr>))
           else if varname = ''queue'' then
             (if py_find rest (NODE_TYPE E) = - 1 then Inr Return_None
              else Inr (Next (s\<lparr>job := (job s)\<lparr>queue := rest\<rparr>\<rparr>)))
           else if varname = ''Resource_List.nodect'' then
             (case py_int rest of
                Inl e \<Rightarrow> Inl e
              | Inr n \<Rightarrow> Inr (Next (s\<lparr>job := (job s)\<lparr>nodect := n\<rparr>\<rparr>)))
           else if varname = ''Resource_List.walltime'' then
             (case interval rest of
                Inl e \<Rightarrow> Inl e
              | Inr d \<Rightarrow> Inr (Next (s\<lparr>job := (job s)\<lparr>walltime := d\<rparr>\<rparr>)))
           else if varname = ''eligible_time'' then
             (case strptime_c E rest of
                Some t \<Rightarrow> Inr (Next (s\<lparr>job := (job s)\<lparr>eligible_time := t\<rparr>\<rparr>))
              | None \<Rightarrow> Inr (Next (s\<lparr>job := (job s)\<lparr>eligible_time := now\<rparr>\<rparr>)))
           else if varname = ''stime'' then
             (case strptime_c E rest of
                Some t \<Rightarrow> Inr (Next (s\<lparr>has_stime := True, job := (job s)\<lparr>start_time := t\<rparr>\<rparr>))
              | None \<Rightarrow> Inr (Next (s\<lparr>has_stime := True\<rparr>)))
           else if varname = ''estimated.start_time'' \<and> \<not> has_stime s then
             (case strptime_c E rest of
                Some t \<Rightarrow> Inr (Next (s\<lparr>job := (job s)\<lparr>start_time := t\<rparr>\<rparr>))
              | None \<Rightarrow> Inr (Next s))
           else if varname = ''exec_vnode'' then
             Inr (Next (s\<lparr>in_vnode := True, exec_vnode_seen := True, est_vnode := rest\<rparr>))
           else if varname = ''estimated.exec_vnode'' \<and> \<not> exec_vnode_seen s then
             Inr (Next (s\<lparr>in_vnode := True, est_vnode := rest\<rparr>))
           else Inr (Next s))
      | None \<Rightarrow>
          if in_vnode s0 then Inr (Next (s0\<lparr>est_vnode := est_vnode s0 @ py_strip line\<rparr>))
          else Inr (Next s0))"

text \<open>
  The \<^verbatim>\<open>for\<close> loop: it stops at the first \<^verbatim>\<open>return None\<close> or exception.
  \<open>clock k\<close> is the clock reading available to the \<open>k\<close>-th line.
\<close>

fun job_loop :: "env \<Rightarrow> (nat \<Rightarrow> datetime) \<Rightarrow> nat \<Rightarrow> scan \<Rightarrow> string list \<Rightarrow> py_error + scan flow" where
  "job_loop E clock k s [] = Inr (Next s)"
| "job_loop E clock k s (l # ls) =
     (case parse_line E (clock k) s l of
        Inl e \<Rightarrow> Inl e
      | Inr Return_None \<Rightarrow> Inr Return_None
      | Inr (Next s') \<Rightarrow> job_loop E clock (Suc k) s' ls)"

text \<open>Lines 106 to 108: the node names of the collected assignment.\<close>

definition clean_vnodes :: "string \<Rightarrow> string list" where
  "clean_vnodes field =
     (let names = map (\<lambda>s. py_strip_chars ''('' (hd (py_split '':'' s))) (py_split ''+'' field)
      in if length names = 1 \<and> names ! 0 = [] then [] else names)"

text \<open>
  The lines the loop walks, \<^verbatim>\<open>job_info.split("\n")[1:-1]\<close>: every line but the
  first and the last.
\<close>

definition scanned_lines :: "string \<Rightarrow> string list" where
  "scanned_lines job_info = butlast (tl (py_split ''\<newline>'' job_info))"

definition header_id :: "string \<Rightarrow> job_id_value" where
  "header_id job_info =
     (let fragments = py_split '':'' (hd (py_split ''\<newline>'' job_info))
      in if length fragments = 2 then Id_text (py_strip (fragments ! 1))
         else Id_fragments fragments)"

definition start_scan :: "env \<Rightarrow> string \<Rightarrow> scan" where
  "start_scan E job_info =
     \<lparr> job = (new_Job E)\<lparr>job_id := header_id job_info\<rparr>,
       exec_vnode_seen = False, has_stime = False, in_vnode = False, est_vnode = [] \<rparr>"

text \<open>\<open>Inr None\<close> is the \<^verbatim>\<open>None\<close> the function returns for a job of another queue.\<close>

definition job_from_qstat :: "env \<Rightarrow> (nat \<Rightarrow> datetime) \<Rightarrow> string \<Rightarrow> py_error + Job option" where
  "job_from_qstat E clock job_info =
     (case job_loop E clock 0 (start_scan E job_info) (scanned_lines job_info) of
        Inl e \<Rightarrow> Inl e
      | Inr Return_None \<Rightarrow> Inr None
      | Inr (Next s) \<Rightarrow> Inr (Some ((job s)\<lparr>exec_vnode := clean_vnodes (est_vnode s)\<rparr>)))"

text \<open>
  \<^verbatim>\<open>get_xfua_jobs\<close>: the output of \<^verbatim>\<open>qstat -f\<close> cut at blank lines, each block parsed
  in turn; an exception in one block ends the comprehension. \<open>clock i\<close> is the clock
  during block \<open>i\<close>.
\<close>

fun collect :: "(py_error + 'a) list \<Rightarrow> py_error + 'a list" where
  "collect [] = Inr []"
| "collect (r # rs) =
     (case r of
        Inl e \<Rightarrow> Inl e
      | Inr x \<Rightarrow> (case collect rs of Inl e \<Rightarrow> Inl e | Inr xs \<Rightarrow> Inr (x # xs)))"

definition get_xfua_jobs :: "env \<Rightarrow> (nat \<Rightarrow> nat \<Rightarrow> datetime) \<Rightarrow> string \<Rightarrow> py_error + Job option list" where
  "get_xfua_jobs E clock qstat_output =
     collect (map (\<lambda>(i, block). job_from_qstat E (clock i) block)
                  (enumerate 0 (py_split ''\<newline>\<newline>'' qstat_output)))"

text \<open>The caller's \<^verbatim>\<open>[job for job in get_xfua_jobs() if job is not None]\<close>.\<close>

definition not_None_jobs :: "Job option list \<Rightarrow> Job list" where
  "not_None_jobs rs = map the (filter (\<lambda>r. r \<noteq> None) rs)"

section \<open>The renderer\<close>

subsection \<open>Values it works with\<close>

text \<open>
  Timestamps count microseconds from the first instant a \<^verbatim>\<open>datetime\<close> can hold.
  Adding a \<^verbatim>\<open>timedelta\<close> raises OverflowError when the sum leaves the years 1 to 9999
  (3652059 days); the difference of two timestamps is always a \<^verbatim>\<open>timedelta\<close>.
\<close>

definition datetime_limit :: int where
  "datetime_limit = 3652059 * us_per_day"

definition datetime_add :: "datetime \<Rightarrow> timedelta \<Rightarrow> py_error + datetime" where
  "datetime_add t d = (if 0 \<le> t + d \<and> t + d < datetime_limit then Inr (t + d) else Inl OverflowError)"

text \<open>
  The program computes offsets on the time axis in floating point. The model does not fix
  that arithmetic: the four computations the renderer makes are parameters, for any type
  \<open>'f\<close> of floating-point values. \<open>to_hours d\<close> is \<^verbatim>\<open>d.total_seconds()/3600\<close>,
  \<open>fsub a b\<close> is \<^verbatim>\<open>a - b\<close>, \<open>label_x a b\<close> is \<^verbatim>\<open>max((a+b)/2, 0)\<close> and \<open>half n\<close> is
  \<^verbatim>\<open>n/2\<close> for an integer \<open>n\<close>.
\<close>

record 'f float_ops =
  to_hours :: "timedelta \<Rightarrow> 'f"
  fsub :: "'f \<Rightarrow> 'f \<Rightarrow> 'f"
  label_x :: "'f \<Rightarrow> 'f \<Rightarrow> 'f"
  half :: "int \<Rightarrow> 'f"

text \<open>
  One entry of the \<^verbatim>\<open>nodes\<close> object that \<^verbatim>\<open>pbsnodes -aF json\<close> prints:
  \<^verbatim>\<open>v["resources_available"]["Qlist"]\<close>, \<^verbatim>\<open>v["resources_available"]["mcdram"]\<close> where
  the node has one, and \<^verbatim>\<open>v["state"]\<close>. The object itself keeps its order: a list of
  names with their entries.
\<close>

record node =
  Qlist :: string
  mcdram :: "string option"
  state :: string

type_synonym nodes = "(string \<times> node) list"

text \<open>
  What is drawn. A colour is the palette and the value handed to it: \<^verbatim>\<open>CMAP2\<close> at
  \<open>i_c\<close>, \<^verbatim>\<open>CMAP\<close> and \<^verbatim>\<open>CMAP3\<close> at the job's number among the \<open>n\<close> jobs of its kind.
  A rectangle has its corner (x, y), width, height, face colour and hatch; a label has
  its text and position. A coordinate is an integer of the program or one of its
  floating-point values.
\<close>

datatype colour = Grey | Pastel1_6 nat | Paired_12 nat nat | Dark2_8 nat nat

datatype 'f coord = Whole int | Floating 'f

datatype 'f artist =
    Rectangle "'f coord" "'f coord" "'f coord" "'f coord" colour "char option"
  | Annotate string "'f coord" "'f coord"

subsection \<open>Library functions\<close>

text \<open>\<^verbatim>\<open>xs.index(x)\<close>: the first position of \<open>x\<close>, ValueError when it is missing.\<close>

fun list_index :: "'a list \<Rightarrow> 'a \<Rightarrow> py_error + nat" where
  "list_index [] x = Inl ValueError"
| "list_index (y # ys) x =
     (if y = x then Inr 0 else map_sum id Suc (list_index ys x))"

text \<open>
  \<^verbatim>\<open>itertools.groupby\<close>: neighbours with the key of the group's first element form
  one group.
\<close>

function groupby :: "('a \<Rightarrow> 'k) \<Rightarrow> 'a list \<Rightarrow> ('k \<times> 'a list) list" where
  "groupby key [] = []"
| "groupby key (x # xs) =
     (key x, x # takeWhile (\<lambda>y. key y = key x) xs)
       # groupby key (dropWhile (\<lambda>y. key y = key x) xs)"
  by pat_completeness auto
termination
  by (relation "measure (\<lambda>(key, xs). length xs)") (auto simp: length_dropWhile_le less_Suc_eq_le)

subsection \<open>get\_compute\_node\_list\<close>

definition get_compute_node_list :: "string \<Rightarrow> nodes \<Rightarrow> nodes" where
  "get_compute_node_list node_type pbsnodes =
     filter (\<lambda>(k, v). py_find (Qlist v) node_type \<ge> 0) pbsnodes"

subsection \<open>plot\_job\_schedule\<close>

text \<open>
  Line 126: \<^verbatim>\<open>len(jobs) > 0 and jobs[0].queue.index('knl') >= 0\<close>. The second operand is
  evaluated only for a non-empty list, and \<^verbatim>\<open>index\<close> raises where \<^verbatim>\<open>find\<close> would
  answer -1.
\<close>

definition knl_test :: "Job list \<Rightarrow> py_error + bool" where
  "knl_test jobs =
     (if length jobs > 0
      then (case py_index (queue (hd jobs)) ''knl'' of
              Inl e \<Rightarrow> Inl e
            | Inr i \<Rightarrow> Inr (i \<ge> 0))
      else Inr False)"

text \<open>Lines 127 to 144: one hatched rectangle per node row, then the two labels.\<close>

definition mcdram_rectangle :: "nat \<times> string \<times> node \<Rightarrow> py_error + 'f artist" where
  "mcdram_rectangle = (\<lambda>(i, k, v).
     (case mcdram v of
        None \<Rightarrow> Inl KeyError
      | Some m \<Rightarrow>
          (let i_c = (if m = ''flat'' then 1 else 0 :: nat)
           in Inr (Rectangle (Whole 0) (Whole (int i)) (Whole 24) (Whole 1) (Pastel1_6 i_c)
                     (Some (if i_c = 0 then CHR ''/'' else CHR 0x5C))))))"

definition mcdram_shading :: "nodes \<Rightarrow> py_error + 'f artist list" where
  "mcdram_shading nodes =
     (case collect (map mcdram_rectangle (enumerate 0 nodes)) of
        Inl e \<Rightarrow> Inl e
      | Inr rects \<Rightarrow>
          Inr (rects @ [Annotate ''cache'' (Whole 12) (Whole 1),
                        Annotate ''flat'' (Whole 12) (Whole (int (length nodes)))]))"

text \<open>Lines 147 to 152: a grey rectangle on the row of every offline node.\<close>

definition offline_shading :: "nodes \<Rightarrow> 'f artist list" where
  "offline_shading nodes =
     concat (map (\<lambda>(i, k, v). if py_contains (state v) ''offline''
                               then [Rectangle (Whole 0) (Whole (int i)) (Whole 24) (Whole 1) Grey None]
                               else [])
                 (enumerate 0 nodes))"

text \<open>Everything drawn before the jobs (lines 125 to 152).\<close>

definition background :: "nodes \<Rightarrow> Job list \<Rightarrow> py_error + 'f artist list" where
  "background nodes jobs =
     (case knl_test jobs of
        Inl e \<Rightarrow> Inl e
      | Inr knl \<Rightarrow>
          (case (if knl then mcdram_shading nodes else Inr []) of
             Inl e \<Rightarrow> Inl e
           | Inr shading \<Rightarrow> Inr (shading @ offline_shading nodes)))"

text \<open>
  Line 178: \<^verbatim>\<open>groupby(sorted(i_nodes), lambda n, c=count(): n-next(c))\<close>. The counter is
  created with the lambda, once per job, and \<^verbatim>\<open>groupby\<close> asks for the key of each
  element once, in order: the element at position \<open>c\<close> of the sorted list gets the key
  \<open>n - c\<close>. Each group is listed (\<^verbatim>\<open>r = list(v)\<close>).
\<close>

definition run_groups :: "int list \<Rightarrow> int list list" where
  "run_groups i_nodes =
     map (\<lambda>(k, v). map snd v)
         (groupby (\<lambda>(c, n). n - int c) (enumerate 0 (sort i_nodes)))"

text \<open>
  The text of a label (line 186). A job id that is still a list of fragments has no
  \<^verbatim>\<open>split\<close>: AttributeError.
\<close>

definition job_label :: "Job \<Rightarrow> py_error + string" where
  "job_label j =
     (case job_id j of
        Id_fragments fs \<Rightarrow> Inl AttributeError
      | Id_text t \<Rightarrow> Inr (hd (py_split ''.'' t) @ '': '' @ job_name j @ '' ('' @ job_owner j @ '')''))"

text \<open>Lines 179 to 187: one rectangle per group, and a label on a group of several rows.\<close>

fun draw_ranges ::
  "'f float_ops \<Rightarrow> 'f \<Rightarrow> 'f \<Rightarrow> colour \<Rightarrow> Job \<Rightarrow> int list list \<Rightarrow> py_error + 'f artist list" where
  "draw_ranges F tstart tend colour_i j [] = Inr []"
| "draw_ranges F tstart tend colour_i j (r # ranges) =
     (let patch = Rectangle (Floating tstart) (Whole (hd r)) (Floating (fsub F tend tstart))
                    (Whole (last r - hd r + 1)) colour_i None
      in case (if last r - hd r > 0
               then (case job_label j of
                       Inl e \<Rightarrow> Inl e
                     | Inr text \<Rightarrow>
                         Inr [Annotate text (Floating (label_x F tstart tend))
                                (Floating (half F (hd r + last r)))])
               else Inr []) of
           Inl e \<Rightarrow> Inl e
         | Inr label \<Rightarrow>
             (case draw_ranges F tstart tend colour_i j ranges of
                Inl e \<Rightarrow> Inl e
              | Inr rest \<Rightarrow> Inr (patch # label @ rest)))"

text \<open>
  The body of the loop over the jobs (lines 163 to 187). \<open>now1\<close> and \<open>now2\<close> are the two
  readings of the clock it takes; \<open>i_user\<close> and \<open>i_other\<close> come in and go out. The
  rectangle gets \<open>tstart\<close> as its x and the floating-point difference \<open>tend - tstart\<close> as
  its width.
\<close>

definition draw_job ::
  "'f float_ops \<Rightarrow> string \<Rightarrow> nodes \<Rightarrow> nat \<Rightarrow> nat \<Rightarrow> datetime \<Rightarrow> datetime \<Rightarrow> nat \<times> nat \<Rightarrow> Job
     \<Rightarrow> py_error + ('f artist list \<times> nat \<times> nat)" where
  "draw_job F username nodes n_user n_other now1 now2 counters j =
     (case counters of (i_user, i_other) \<Rightarrow>
      if length (exec_vnode j) > 0 \<and> job_state j \<noteq> ''H'' then
        (case collect (map (list_index (map fst nodes)) (exec_vnode j)) of
           Inl e \<Rightarrow> Inl e
         | Inr i_nodes \<Rightarrow>
        (case datetime_add (start_time j) (walltime j) of
           Inl e \<Rightarrow> Inl e
         | Inr tend_at \<Rightarrow>
             (let tstart = to_hours F (start_time j - now1);
                  tend = to_hours F (tend_at - now2);
                  i_user' = (if job_owner j = username then i_user + 1 else i_user);
                  i_other' = (if job_owner j = username then i_other else i_other + 1);
                  colour_i = (if job_owner j = username then Dark2_8 i_user' n_user
                              else Paired_12 i_other' n_other)
              in case draw_ranges F tstart tend colour_i j (run_groups (map int i_nodes)) of
                   Inl e \<Rightarrow> Inl e
                 | Inr drawn \<Rightarrow> Inr (drawn, i_user', i_other'))))
      else Inr ([], i_user, i_other))"

text \<open>
  The loop over the jobs. \<open>clock i 0\<close> and \<open>clock i 1\<close> are the readings of the clock
  during turn \<open>i\<close>.
\<close>

fun draw_jobs ::
  "'f float_ops \<Rightarrow> string \<Rightarrow> nodes \<Rightarrow> nat \<Rightarrow> nat \<Rightarrow> (nat \<Rightarrow> nat \<Rightarrow> datetime) \<Rightarrow> nat \<Rightarrow> nat \<times> nat
     \<Rightarrow> Job list \<Rightarrow> py_error + 'f artist list" where
  "draw_jobs F username nodes n_user n_other clock i counters [] = Inr []"
| "draw_jobs F username nodes n_user n_other clock i counters (j # jobs) =
     (case draw_job F username nodes n_user n_other (clock i 0) (clock i 1) counters j of
        Inl e \<Rightarrow> Inl e
      | Inr (drawn, counters') \<Rightarrow>
          (case draw_jobs F username nodes n_user n_other clock (Suc i) counters' jobs of
             Inl e \<Rightarrow> Inl e
           | Inr rest \<Rightarrow> Inr (drawn @ rest)))"

text \<open>
  \<^verbatim>\<open>plot_job_schedule\<close>: the artists on the axes when the figure is saved, in the order
  they were added. \<open>pbsnodes\<close> is the node object the query returned and \<open>username\<close> the
  answer of \<^verbatim>\<open>getpass.getuser()\<close>. An exception leaves no figure.
\<close>

definition plot_job_schedule ::
  "'f float_ops \<Rightarrow> string \<Rightarrow> string \<Rightarrow> nodes \<Rightarrow> (nat \<Rightarrow> nat \<Rightarrow> datetime) \<Rightarrow> Job list
     \<Rightarrow> py_error + 'f artist list" where
  "plot_job_schedule F node_type username pbsnodes clock jobs =
     (let nodes = get_compute_node_list node_type pbsnodes in
      case background nodes jobs of
        Inl e \<Rightarrow> Inl e
      | Inr shading \<Rightarrow>
          (let n_user = length (filter (\<lambda>j. length (exec_vnode j) > 0 \<and> job_owner j = username) jobs);
               n_other = length (filter (\<lambda>j. length (exec_vnode j) > 0 \<and> job_owner j \<noteq> username) jobs)
           in case draw_jobs F username nodes n_user n_other clock 0 (0, 0) jobs of
                Inl e \<Rightarrow> Inl e
              | Inr drawn \<Rightarrow> Inr (shading @ drawn)))"

text \<open>
  The script itself: an argument replaces \<^verbatim>\<open>NODE_TYPE\<close>, the blocks are parsed, the
  \<^verbatim>\<open>None\<close> results are left out, the rest is plotted.
\<close>

definition main ::
  "'f float_ops \<Rightarrow> env \<Rightarrow> string list \<Rightarrow> (nat \<Rightarrow> nat \<Rightarrow> datetime) \<Rightarrow> string \<Rightarrow> string \<Rightarrow> nodes
     \<Rightarrow> (nat \<Rightarrow> nat \<Rightarrow> datetime) \<Rightarrow> py_error + 'f artist list" where
  "main F E argv parse_clock qstat_output username pbsnodes plot_clock =
     (let E' = (if length argv > 1 then E\<lparr>NODE_TYPE := argv ! 1\<rparr> else E) in
      case get_xfua_jobs E' parse_clock qstat_output of
        Inl e \<Rightarrow> Inl e
      | Inr results \<Rightarrow>
          plot_job_schedule F (NODE_TYPE E') username pbsnodes plot_clock (not_None_jobs results))"

section \<open>Notions the properties are stated with\<close>

text \<open>A non-empty sequence of decimal digits, and the seconds the specification assigns to
  a time span \<open>D days, HH:MM:SS\<close>.\<close>

definition digit_run :: "string \<Rightarrow> bool" where
  "digit_run ds = (ds \<noteq> [] \<and> list_all is_digit ds)"

definition spec_seconds :: "int \<Rightarrow> int \<Rightarrow> int \<Rightarrow> int \<Rightarrow> int" where
  "spec_seconds D HH MM SS = D * 86400 + HH * 3600 + MM * 60 + SS"


definition is_attr :: "string \<Rightarrow> string \<Rightarrow> bool" where
  "is_attr name l = (case var_match l of None \<Rightarrow> False | Some (whole, v) \<Rightarrow> v = name)"

definition attr_value :: "string \<Rightarrow> string" where
  "attr_value l = (case var_match l of None \<Rightarrow> [] | Some (whole, v) \<Rightarrow> replace_first whole [] l)"

definition line_raises :: "string \<Rightarrow> bool" where
  "line_raises l =
     (case var_match l of
        None \<Rightarrow> False
      | Some (whole, v) \<Rightarrow>
          (v = ''Resource_List.nodect'' \<and> isl (py_int (replace_first whole [] l)))
        \<or> (v = ''Resource_List.walltime'' \<and> isl (interval (replace_first whole [] l))))"

definition line_filtered :: "env \<Rightarrow> string \<Rightarrow> bool" where
  "line_filtered E l = (is_attr ''queue'' l \<and> \<not> sublist (NODE_TYPE E) (attr_value l))"

text \<open>
  An environment and a clock for concrete runs: the node type is the default of the
  script, one timestamp text parses (to the instant 500) and every other one is rejected.
\<close>

definition demo_env :: env where
  "demo_env = \<lparr> NODE_TYPE = ''xfua'',
       strptime_c = (\<lambda>s. if s = ''Tue Nov  3 10:00:00 2026'' then Some 500 else None),
       class_eligible_time = 7, class_start_time = 8 \<rparr>"

definition demo_clock :: "nat \<Rightarrow> datetime" where
  "demo_clock k = 100 + int k"

text \<open>
  The node name of one entry and the node list of a field in the words of the
  specification: the text before the first colon with a leading parenthesis removed, for
  every entry between plus signs, and no entry at all for the empty field.
  \<open>field_text l following\<close> is the text of a field that starts on line \<open>l\<close>: its value,
  then the lines after it up to the next attribute line, each trimmed.
\<close>

definition spec_node_name :: "string \<Rightarrow> string" where
  "spec_node_name entry =
     (let t = takeWhile (\<lambda>c. c \<noteq> CHR '':'') entry in if prefix ''('' t then tl t else t)"

definition spec_node_list :: "string \<Rightarrow> string list" where
  "spec_node_list field = (if field = [] then [] else map spec_node_name (py_split ''+'' field))"

definition field_text :: "string \<Rightarrow> string list \<Rightarrow> string" where
  "field_text l following =
     attr_value l @ concat (map py_strip (takeWhile (\<lambda>x. var_match x = None) following))"

text \<open>
  A run of consecutive integers; a list of runs in which every run is one and each is
  separated from the next by a gap; the geometry (x, y, width, height) of the rectangles
  among some artists. \<open>runs_from k\<close> is the grouping of line 178 when the counter starts
  at \<open>k\<close> and the list is already sorted. A job has a text id when its header line had
  exactly one colon, so that a label can be made from it.
\<close>

definition contiguous :: "int list \<Rightarrow> bool" where
  "contiguous r = (r \<noteq> [] \<and> r = [hd r..last r])"

fun maximal_runs :: "int list list \<Rightarrow> bool" where
  "maximal_runs [] = True"
| "maximal_runs [r] = contiguous r"
| "maximal_runs (r # r' # rs) = (contiguous r \<and> last r + 1 < hd r' \<and> maximal_runs (r' # rs))"

fun rectangles :: "'f artist list \<Rightarrow> ('f coord \<times> 'f coord \<times> 'f coord \<times> 'f coord) list" where
  "rectangles [] = []"
| "rectangles (Rectangle x y w h c ht # as) = (x, y, w, h) # rectangles as"
| "rectangles (Annotate t x y # as) = rectangles as"

definition runs_from :: "nat \<Rightarrow> int list \<Rightarrow> int list list" where
  "runs_from k ys =
     map (\<lambda>(k, v). map snd v) (groupby (\<lambda>(c, n). n - int c) (enumerate k ys))"

definition has_text_id :: "Job \<Rightarrow> bool" where
  "has_text_id j = (case job_id j of Id_text t \<Rightarrow> True | Id_fragments fs \<Rightarrow> False)"

definition single_rows :: "int list list \<Rightarrow> bool" where
  "single_rows ranges = list_all (\<lambda>r. last r - hd r \<le> 0) ranges"

text \<open>
  A job on a node type with memory modes, five nodes of which one is offline, and a clock
  standing half an hour after the job's start, for concrete runs of the renderer.
\<close>

definition knl_job :: Job where
  "knl_job = \<lparr>job_id = Id_text ''17.pbs01'', job_name = ''sim'', job_state = ''R'',
      job_owner = ''alice'', queue = ''xfuaknl'', nodect = 4, walltime = 7200000000,
      eligible_time = 0, exec_vnode = [''n3'', ''n1'', ''n2'', ''n5''],
      start_time = 63000000000000000\<rparr>"

definition demo_nodes :: nodes where
  "demo_nodes =
     map (\<lambda>(k, s). (k, \<lparr>Qlist = ''xfuaknl'', mcdram = Some ''flat'', state = s\<rparr>))
       [(''n1'', ''free''), (''n2'', ''job-busy''), (''n3'', ''free''), (''n4'', ''offline''),
        (''n5'', ''free'')]"

definition demo_now :: "nat \<Rightarrow> nat \<Rightarrow> datetime" where
  "demo_now i k = 63000001800000000"

text \<open>
  Floating-point values left as the expressions that compute them, so that a concrete run
  shows which computation each coordinate comes from.
\<close>

datatype float_term =
    Hours int
  | Minus float_term float_term
  | Label_x float_term float_term
  | Half int

definition symbolic_floats :: "float_term float_ops" where
  "symbolic_floats = \<lparr>to_hours = Hours, fsub = Minus, label_x = Label_x, half = Half\<rparr>"



section \<open>Properties of interval\<close>

lemma digit_not_int_space: "is_digit c \<Longrightarrow> \<not> is_int_space c"
  by (auto simp: is_digit_def is_int_space_def)

lemma strip_where_id:
  assumes "s \<noteq> []" "\<not> p (hd s)" "\<not> p (last s)"
  shows "strip_where p s = s"
proof -
  have a: "dropWhile p s = s" using assms by (cases s) auto
  have "rev s \<noteq> []" "\<not> p (hd (rev s))" using assms by (auto simp: hd_rev)
  then have "dropWhile p (rev s) = rev s" by (cases "rev s") auto
  with a show ?thesis by (simp add: strip_where_def)
qed

lemma digits_value_snoc: "digits_value (ds @ [c]) = 10 * digits_value ds + (of_char c - 48)"
  by (simp add: digits_value_def)

lemma digit_char_value: "is_digit c \<Longrightarrow> (0::int) \<le> of_char c - 48"
  by (auto simp: is_digit_def)

lemma digits_value_nonneg: "list_all is_digit ds \<Longrightarrow> 0 \<le> digits_value ds"
proof (induction ds rule: rev_induct)
  case Nil
  then show ?case by (simp add: digits_value_def)
next
  case (snoc c ds)
  then show ?case using digit_char_value [of c] by (simp add: digits_value_snoc)
qed

lemma underscores_ok_digits: "list_all is_digit ds \<Longrightarrow> underscores_ok ds"
  by (induction ds rule: underscores_ok.induct) auto

lemma digit_not_underscore: "is_digit c \<Longrightarrow> c \<noteq> CHR ''_'' \<and> c \<noteq> CHR ''-'' \<and> c \<noteq> CHR ''+''"
  by (auto simp: is_digit_def)

lemma py_int_digit_run:
  assumes "digit_run ds"
  shows "py_int ds = (if length ds \<le> 4300 then Inr (digits_value ds) else Inl ValueError)"
proof -
  from assms obtain c cs where ds: "ds = c # cs" and all: "list_all is_digit ds"
    by (cases ds) (auto simp: digit_run_def)
  have hd: "is_digit (hd ds)" and lst: "is_digit (last ds)"
    using all ds by (auto simp: list_all_iff)
  have strip: "strip_where is_int_space ds = ds"
    using ds hd lst by (intro strip_where_id) (auto dest: digit_not_int_space)
  have filt: "filter (\<lambda>c. c \<noteq> CHR ''_'') ds = ds"
    using all by (auto simp: list_all_iff filter_id_conv dest: digit_not_underscore)
  have lim: "(int (length ds) \<le> int_max_str_digits) = (length ds \<le> 4300)"
    by (simp add: int_max_str_digits_def)
  have ne: "ds \<noteq> []" using ds by simp
  have body: "int_body ds = (if length ds \<le> 4300 then Inr (digits_value ds) else Inl ValueError)"
    unfolding int_body_def filt lim using hd ne underscores_ok_digits [OF all] by (simp only: simp_thms if_True)
  have "c \<noteq> CHR ''-''" "c \<noteq> CHR ''+''" using hd ds by (auto dest: digit_not_underscore)
  then show ?thesis using strip body ds by (simp add: py_int_def)
qed

lemma takeWhile_digit_run:
  assumes "list_all is_digit ds" "\<not> is_digit c"
  shows "takeWhile is_digit (ds @ c # r) = ds" "dropWhile is_digit (ds @ c # r) = c # r"
  using assms by (auto simp: list_all_iff takeWhile_append2 dropWhile_append2)

lemma match_hms_form:
  assumes "digit_run H" "digit_run M" "digit_run S"
  shows "match_hms (H @ '':'' @ M @ '':'' @ S) = Some (H, M, S)"
proof -
  have nd: "\<not> is_digit CHR '':''" by (simp add: is_digit_def)
  have H: "list_all is_digit H" "H \<noteq> []" and M: "list_all is_digit M" "M \<noteq> []"
    and S: "list_all is_digit S" "S \<noteq> []"
    using assms by (auto simp: digit_run_def)
  have 1: "takeWhile is_digit (H @ CHR '':'' # M @ CHR '':'' # S) = H"
    "dropWhile is_digit (H @ CHR '':'' # M @ CHR '':'' # S) = CHR '':'' # M @ CHR '':'' # S"
    using takeWhile_digit_run [OF H(1) nd] by auto
  have 2: "takeWhile is_digit (M @ CHR '':'' # S) = M"
    "dropWhile is_digit (M @ CHR '':'' # S) = CHR '':'' # S"
    using takeWhile_digit_run [OF M(1) nd] by auto
  have 3: "takeWhile is_digit S = S" using S(1) by (simp add: list_all_iff)
  show ?thesis using H(2) M(2) S(2) by (simp add: match_hms_def Let_def 1 2 3)
qed

lemma match_interval_days:
  assumes "digit_run D" "digit_run H" "digit_run M" "digit_run S"
  shows "match_interval (D @ '' days, '' @ H @ '':'' @ M @ '':'' @ S) = Some (Some D, H, M, S)"
proof -
  have nd: "\<not> is_digit CHR '' ''" by (simp add: is_digit_def)
  have D: "list_all is_digit D" "D \<noteq> []" using assms by (auto simp: digit_run_def)
  let ?r = "''days, '' @ H @ '':'' @ M @ '':'' @ S"
  have "takeWhile is_digit (D @ CHR '' '' # ?r) = D"
    "dropWhile is_digit (D @ CHR '' '' # ?r) = CHR '' '' # ?r"
    using takeWhile_digit_run [OF D(1) nd] by auto
  then show ?thesis
    using D(2) match_hms_form [OF assms(2-4)] by (simp add: match_interval_def)
qed

lemma match_interval_plain:
  assumes "digit_run H" "digit_run M" "digit_run S"
  shows "match_interval (H @ '':'' @ M @ '':'' @ S) = Some (None, H, M, S)"
proof -
  have nd: "\<not> is_digit CHR '':''" by (simp add: is_digit_def)
  have H: "list_all is_digit H" using assms by (auto simp: digit_run_def)
  have "dropWhile is_digit (H @ CHR '':'' # M @ CHR '':'' # S) = CHR '':'' # M @ CHR '':'' # S"
    using takeWhile_digit_run [OF H nd] by auto
  then show ?thesis
    using match_hms_form [OF assms] by (simp add: match_interval_def)
qed

lemma timedelta_new_seconds:
  assumes "0 \<le> d" "0 \<le> h" "0 \<le> m" "0 \<le> x"
  shows "timedelta_new d h m x =
     (if spec_seconds d h m x div 86400 \<le> 999999999
      then Inr (spec_seconds d h m x * 1000000) else Inl OverflowError)"
proof -
  have eq: "((d * 24 + h) * 60 + m) * 60 + x = spec_seconds d h m x"
    by (simp add: spec_seconds_def algebra_simps)
  have nn: "0 \<le> spec_seconds d h m x" using assms by (simp add: spec_seconds_def)
  have d: "(spec_seconds d h m x * 1000000) div 86400000000 = spec_seconds d h m x div 86400"
    by simp
  have "0 \<le> spec_seconds d h m x div 86400" using nn by (simp add: pos_imp_zdiv_nonneg_iff)
  then show ?thesis
    unfolding timedelta_new_def eq Let_def timedelta_ok_def us_per_day_def d by auto
qed

text \<open>
  Claim C1, as the code has it. For digit sequences \<open>D\<close>, \<open>HH\<close>, \<open>MM\<close>, \<open>SS\<close> of at
  most 4300 digits each, the strings \<open>D days, HH:MM:SS\<close> and \<open>HH:MM:SS\<close> (\<open>D\<close> taken as
  0) give a duration of \<open>D*86400 + HH*3600 + MM*60 + SS\<close> seconds whenever that is less
  than 1000000000 days, the range of the duration type, and OverflowError beyond it; a
  sequence of more than 4300 digits makes \<^verbatim>\<open>int\<close> raise ValueError.
\<close>

theorem interval_seconds:
  assumes "digit_run HH" "digit_run MM" "digit_run SS"
  shows "(digit_run D \<longrightarrow>
            interval (D @ '' days, '' @ HH @ '':'' @ MM @ '':'' @ SS) =
              (if 4300 < length D \<or> 4300 < length HH \<or> 4300 < length MM \<or> 4300 < length SS
               then Inl ValueError
               else let secs = spec_seconds (digits_value D) (digits_value HH) (digits_value MM) (digits_value SS)
                    in if secs div 86400 \<le> 999999999 then Inr (secs * 1000000) else Inl OverflowError))
       \<and> interval (HH @ '':'' @ MM @ '':'' @ SS) =
              (if 4300 < length HH \<or> 4300 < length MM \<or> 4300 < length SS
               then Inl ValueError
               else let secs = spec_seconds 0 (digits_value HH) (digits_value MM) (digits_value SS)
                    in if secs div 86400 \<le> 999999999 then Inr (secs * 1000000) else Inl OverflowError)"
proof -
  have nn: "0 \<le> digits_value HH" "0 \<le> digits_value MM" "0 \<le> digits_value SS"
    using assms by (auto simp: digit_run_def intro: digits_value_nonneg)
  note ints = py_int_digit_run [OF assms(1)] py_int_digit_run [OF assms(2)] py_int_digit_run [OF assms(3)]
  have plain: "interval (HH @ '':'' @ MM @ '':'' @ SS) =
      (if 4300 < length HH \<or> 4300 < length MM \<or> 4300 < length SS then Inl ValueError
       else timedelta_new 0 (digits_value HH) (digits_value MM) (digits_value SS))"
    using match_interval_plain [OF assms] ints by (simp add: interval_def int_group_def)
  have days: "interval (D @ '' days, '' @ HH @ '':'' @ MM @ '':'' @ SS) =
      (if 4300 < length D \<or> 4300 < length HH \<or> 4300 < length MM \<or> 4300 < length SS
       then Inl ValueError
       else timedelta_new (digits_value D) (digits_value HH) (digits_value MM) (digits_value SS))"
    if "digit_run D"
    using match_interval_days [OF that assms] ints py_int_digit_run [OF that]
    by (simp add: interval_def int_group_def)
  have dn: "0 \<le> digits_value D" if "digit_run D"
    using that by (auto simp: digit_run_def intro: digits_value_nonneg)
  show ?thesis
    using plain days dn nn timedelta_new_seconds by (simp add: Let_def)
qed

theorem interval_seconds_witness:
  "interval ''2 days, 03:04:05'' = Inr 183845000000 \<and> interval ''03:04:05'' = Inr 11045000000"
proof -
  have d: "digit_run ''2''" "digit_run ''03''" "digit_run ''04''" "digit_run ''05''"
    by (simp_all add: digit_run_def is_digit_def)
  have v: "digits_value ''2'' = 2" "digits_value ''03'' = 3" "digits_value ''04'' = 4" "digits_value ''05'' = 5"
    by (simp_all add: digits_value_def)
  show ?thesis
    using interval_seconds [OF d(2,3,4), of "''2''"] d(1) unfolding v
    by (simp add: spec_seconds_def)
qed

text \<open>Read for every string of the form, the claim fails: this span cannot be represented.\<close>

theorem interval_overflow_counterexample:
  "interval ''1000000000 days, 00:00:00'' = Inl OverflowError"
  by code_simp

section \<open>Facts about the string operations\<close>

lemma py_split_char_Nil: "py_split [c] [] = [[]]"
  by simp

lemma py_split_char_Cons:
  "py_split [c] (x # xs) =
     (if x = c then [] # py_split [c] xs else (x # hd (py_split [c] xs)) # tl (py_split [c] xs))"
  by (simp add: Let_def)


lemma hd_py_split_char: "hd (py_split [c] s) = takeWhile (\<lambda>x. x \<noteq> c) s"
  by (induction s) (auto simp: py_split_char_Cons py_split_char_Nil simp del: py_split.simps)




lemma replace_first_prefix: "replace_first w [] (w @ r) = r"
proof (cases "w @ r")
  case Nil
  then show ?thesis by simp
next
  case (Cons a list)
  have "prefix w (a # list)" "drop (length w) (a # list) = r"
    unfolding Cons [symmetric] by simp_all
  then show ?thesis unfolding Cons by simp
qed

lemma py_find_ge: "- 1 \<le> py_find s sub"
  by (induction s sub rule: py_find.induct) (auto simp: Let_def)

lemma py_find_sublist: "(0 \<le> py_find s sub) = sublist sub s"
proof (induction s)
  case Nil
  then show ?case by simp
next
  case (Cons c cs)
  show ?case
  proof (cases "prefix sub (c # cs)")
    case True
    then show ?thesis by (auto simp: sublist_Cons_right)
  next
    case False
    with Cons show ?thesis by (auto simp: Let_def sublist_Cons_right)
  qed
qed

lemma py_find_absent: "(py_find s sub = - 1) = (\<not> sublist sub s)"
  using py_find_sublist [of s sub] py_find_ge [of s sub] by auto

section \<open>Facts about the parser\<close>

subsection \<open>Attribute lines\<close>

lemma var_match_SomeD:
  assumes "var_match l = Some (w, v)"
  shows "w = ''    '' @ v @ '' = ''" and "l = w @ replace_first w [] l"
proof -
  from assms have p4: "prefix ''    '' l"
    and v: "v = takeWhile (\<lambda>c. c \<noteq> CHR '' '' \<and> c \<noteq> CHR ''='') (drop 4 l)"
    and p3: "prefix '' = '' (drop (4 + length v) l)"
    and w: "w = ''    '' @ v @ '' = ''"
    by (auto simp: var_match_def Let_def split: if_splits)
  show "w = ''    '' @ v @ '' = ''" by (rule w)
  from p4 obtain r where l: "l = ''    '' @ r" by (auto simp: prefix_def)
  then have "drop 4 l = r" by simp
  with v have "prefix v r" by (simp add: takeWhile_is_prefix)
  then obtain r2 where r: "r = v @ r2" by (auto simp: prefix_def)
  have "drop (4 + length v) l = r2" unfolding l r by (simp add: drop_Cons')
  with p3 obtain r3 where "r2 = '' = '' @ r3" by (auto simp: prefix_def)
  then have "l = w @ r3" unfolding l r w by simp
  then show "l = w @ replace_first w [] l" by (simp add: replace_first_prefix)
qed

lemma is_attrD:
  assumes "is_attr n l"
  shows "var_match l = Some (''    '' @ n @ '' = '', n)"
    and "attr_value l = replace_first (''    '' @ n @ '' = '') [] l"
    and "l = ''    '' @ n @ '' = '' @ attr_value l"
proof -
  from assms obtain w where m: "var_match l = Some (w, n)"
    by (auto simp: is_attr_def split: option.splits)
  from var_match_SomeD [OF m] have w: "w = ''    '' @ n @ '' = ''" and l: "l = w @ replace_first w [] l"
    by auto
  show "var_match l = Some (''    '' @ n @ '' = '', n)" using m w by simp
  show a: "attr_value l = replace_first (''    '' @ n @ '' = '') [] l"
    using m w by (simp add: attr_value_def)
  show "l = ''    '' @ n @ '' = '' @ attr_value l" using l w a by simp
qed

lemma is_attr_unique: "is_attr n l \<Longrightarrow> is_attr m l \<Longrightarrow> m = n"
  by (auto simp: is_attr_def split: option.splits)

subsection \<open>One line\<close>

lemma parse_line_queue_other:
  assumes "line_filtered E l"
  shows "parse_line E now s l = Inr Return_None"
proof -
  from assms have a: "is_attr ''queue'' l" and n: "\<not> sublist (NODE_TYPE E) (attr_value l)"
    by (auto simp: line_filtered_def)
  from n have "py_find (attr_value l) (NODE_TYPE E) = - 1" by (simp add: py_find_absent)
  then show ?thesis
    using is_attrD(1,2) [OF a] by (simp add: parse_line_def Let_def)
qed

lemma parse_line_Return_None:
  assumes "parse_line E now s l = Inr Return_None"
  shows "line_filtered E l"
proof -
  from assms obtain w v where m: "var_match l = Some (w, v)"
    by (auto simp: parse_line_def split: option.splits if_splits)
  from assms m have "v = ''queue'' \<and> py_find (replace_first w [] l) (NODE_TYPE E) = - 1"
    by (simp add: parse_line_def Let_def split: if_splits sum.splits option.splits)
  then show ?thesis
    using m by (simp add: line_filtered_def is_attr_def attr_value_def py_find_absent)
qed

lemma parse_line_raises:
  assumes "parse_line E now s l = Inl e"
  shows "line_raises l"
proof -
  from assms obtain w v where m: "var_match l = Some (w, v)"
    by (auto simp: parse_line_def split: option.splits if_splits)
  from assms m show ?thesis
    by (simp add: parse_line_def line_raises_def Let_def split: if_splits sum.splits option.splits)
qed


subsection \<open>The loop\<close>

lemma job_loop_append:
  "job_loop E clock k s (xs @ ys) =
     (case job_loop E clock k s xs of
        Inr (Next s') \<Rightarrow> job_loop E clock (k + length xs) s' ys
      | r \<Rightarrow> r)"
  by (induction xs arbitrary: k s) (auto split: sum.splits flow.splits)

lemma job_loop_no_raise:
  assumes "\<forall>l\<in>set ls. \<not> line_raises l"
  shows "\<exists>r. job_loop E clock k s ls = Inr r"
  using assms
proof (induction ls arbitrary: k s)
  case Nil
  then show ?case by simp
next
  case (Cons l ls)
  then have "\<not> line_raises l" by simp
  then obtain r where r: "parse_line E (clock k) s l = Inr r"
    using parse_line_raises [of E "clock k" s l] by (cases "parse_line E (clock k) s l") auto
  show ?case
  proof (cases r)
    case (Next s')
    with r Cons show ?thesis by simp
  next
    case Return_None
    with r show ?thesis by simp
  qed
qed

lemma job_loop_completes:
  assumes "\<forall>l\<in>set ls. \<not> line_raises l \<and> \<not> line_filtered E l"
  shows "\<exists>s'. job_loop E clock k s ls = Inr (Next s')"
  using assms
proof (induction ls arbitrary: k s)
  case Nil
  then show ?case by simp
next
  case (Cons l ls)
  then have n: "\<not> line_raises l" "\<not> line_filtered E l" by simp_all
  obtain s1 where "parse_line E (clock k) s l = Inr (Next s1)"
  proof (cases "parse_line E (clock k) s l")
    case (Inl e)
    with n(1) show ?thesis using parse_line_raises by blast
  next
    case (Inr r)
    with n(2) that show ?thesis using parse_line_Return_None by (cases r) auto
  qed
  with Cons show ?case by simp
qed


lemma job_from_qstat_SomeD:
  assumes "job_from_qstat E clock b = Inr (Some jb)"
  obtains s where "job_loop E clock 0 (start_scan E b) (scanned_lines b) = Inr (Next s)"
    and "jb = (job s)\<lparr>exec_vnode := clean_vnodes (est_vnode s)\<rparr>"
  using assms by (auto simp: job_from_qstat_def split: sum.splits flow.splits)

subsection \<open>Timestamps, line by line\<close>








lemma job_loop_split:
  assumes "job_loop E clock k s (pre @ l # post) = Inr (Next s')"
  obtains s1 s2 where "job_loop E clock k s pre = Inr (Next s1)"
    and "parse_line E (clock (k + length pre)) s1 l = Inr (Next s2)"
    and "job_loop E clock (Suc (k + length pre)) s2 post = Inr (Next s')"
  using assms
  by (auto simp: job_loop_append split: sum.splits flow.splits)


subsection \<open>Node assignment, line by line\<close>

lemma parse_line_continuation:
  assumes "var_match l = None"
  shows "parse_line E now s l =
     Inr (Next (if in_vnode s then s\<lparr>est_vnode := est_vnode s @ py_strip l\<rparr> else s))"
  using assms by (simp add: parse_line_def)

lemma job_loop_continuations:
  assumes "\<forall>l\<in>set cs. var_match l = None" "in_vnode s"
  shows "job_loop E clock k s cs = Inr (Next (s\<lparr>est_vnode := est_vnode s @ concat (map py_strip cs)\<rparr>))"
  using assms
proof (induction cs arbitrary: k s)
  case Nil
  then show ?case by simp
next
  case (Cons l cs)
  then have p: "parse_line E (clock k) s l = Inr (Next (s\<lparr>est_vnode := est_vnode s @ py_strip l\<rparr>))"
    by (simp add: parse_line_continuation)
  have "in_vnode (s\<lparr>est_vnode := est_vnode s @ py_strip l\<rparr>)" using Cons.prems by simp
  from Cons.IH [OF _ this] Cons.prems(1) p show ?case by simp
qed

lemma parse_line_exec_vnode:
  assumes "is_attr ''exec_vnode'' l"
  shows "parse_line E now s l =
     Inr (Next (s\<lparr>in_vnode := True, exec_vnode_seen := True, est_vnode := attr_value l\<rparr>))"
  using is_attrD(1,2) [OF assms] by (simp add: parse_line_def Let_def)

lemma parse_line_estimated_vnode:
  assumes "is_attr ''estimated.exec_vnode'' l" "\<not> exec_vnode_seen s"
  shows "parse_line E now s l = Inr (Next (s\<lparr>in_vnode := True, est_vnode := attr_value l\<rparr>))"
  using is_attrD(1,2) [OF assms(1)] assms(2) by (simp add: parse_line_def Let_def)

lemma parse_line_vnode_frame:
  assumes "parse_line E now s l = Inr (Next s')"
    and "\<not> is_attr ''exec_vnode'' l"
    and "exec_vnode_seen s \<or> \<not> is_attr ''estimated.exec_vnode'' l"
    and "\<not> in_vnode s \<or> var_match l \<noteq> None"
  shows "\<not> in_vnode s' \<and> est_vnode s' = est_vnode s \<and> exec_vnode_seen s' = exec_vnode_seen s"
  using assms
  by (cases "var_match l")
     (auto simp: parse_line_def is_attr_def Let_def split: if_splits sum.splits option.splits)

lemma job_loop_vnode_frame:
  assumes "job_loop E clock k s ls = Inr (Next s')"
    and "\<forall>l\<in>set ls. \<not> is_attr ''exec_vnode'' l \<and> (exec_vnode_seen s \<or> \<not> is_attr ''estimated.exec_vnode'' l)"
    and "\<not> in_vnode s \<or> ls = [] \<or> var_match (hd ls) \<noteq> None"
  shows "est_vnode s' = est_vnode s \<and> exec_vnode_seen s' = exec_vnode_seen s"
  using assms
proof (induction ls arbitrary: k s)
  case Nil
  then show ?case by simp
next
  case (Cons l ls)
  from Cons.prems(1) obtain s1 where p: "parse_line E (clock k) s l = Inr (Next s1)"
    and r: "job_loop E clock (Suc k) s1 ls = Inr (Next s')"
    by (auto split: sum.splits flow.splits)
  have f: "\<not> in_vnode s1 \<and> est_vnode s1 = est_vnode s \<and> exec_vnode_seen s1 = exec_vnode_seen s"
    using Cons.prems(2,3) by (intro parse_line_vnode_frame [OF p]) auto
  have "est_vnode s' = est_vnode s1 \<and> exec_vnode_seen s' = exec_vnode_seen s1"
    using Cons.prems(2) f by (intro Cons.IH [OF r]) auto
  with f show ?case by simp
qed

lemma parse_line_seen_frame:
  assumes "parse_line E now s l = Inr (Next s')" "\<not> is_attr ''exec_vnode'' l"
  shows "exec_vnode_seen s' = exec_vnode_seen s"
  using assms
  by (cases "var_match l")
     (auto simp: parse_line_def is_attr_def Let_def split: if_splits sum.splits option.splits)

lemma job_loop_seen_frame:
  assumes "job_loop E clock k s ls = Inr (Next s')" "\<forall>l\<in>set ls. \<not> is_attr ''exec_vnode'' l"
  shows "exec_vnode_seen s' = exec_vnode_seen s"
  using assms
proof (induction ls arbitrary: k s)
  case Nil
  then show ?case by simp
next
  case (Cons l ls)
  from Cons.prems(1) obtain s1 where p: "parse_line E (clock k) s l = Inr (Next s1)"
    and r: "job_loop E clock (Suc k) s1 ls = Inr (Next s')"
    by (auto split: sum.splits flow.splits)
  from parse_line_seen_frame [OF p] Cons.prems(2) have "exec_vnode_seen s1 = exec_vnode_seen s" by simp
  with Cons.IH [OF r] Cons.prems(2) show ?case by simp
qed

lemma collected_field:
  assumes "job_loop E clock k s post = Inr (Next s')"
    and "in_vnode s"
    and "\<forall>l\<in>set post. \<not> is_attr ''exec_vnode'' l \<and> (exec_vnode_seen s \<or> \<not> is_attr ''estimated.exec_vnode'' l)"
  shows "est_vnode s' =
     est_vnode s @ concat (map py_strip (takeWhile (\<lambda>l. var_match l = None) post))"
proof -
  let ?P = "\<lambda>l. var_match l = None"
  let ?cs = "takeWhile ?P post" and ?rest = "dropWhile ?P post"
  let ?s1 = "s\<lparr>est_vnode := est_vnode s @ concat (map py_strip ?cs)\<rparr>"
  have cs: "\<forall>l\<in>set ?cs. var_match l = None" by (auto dest: set_takeWhileD)
  have c: "job_loop E clock k s ?cs = Inr (Next ?s1)"
    by (rule job_loop_continuations [OF cs assms(2)])
  have "job_loop E clock k s (?cs @ ?rest) = Inr (Next s')" using assms(1) by simp
  then have r: "job_loop E clock (k + length ?cs) ?s1 ?rest = Inr (Next s')"
    unfolding job_loop_append c by simp
  have hd: "?rest = [] \<or> var_match (hd ?rest) \<noteq> None"
    using hd_dropWhile [of ?P post] by blast
  have all: "\<forall>l\<in>set ?rest. \<not> is_attr ''exec_vnode'' l \<and> (exec_vnode_seen ?s1 \<or> \<not> is_attr ''estimated.exec_vnode'' l)"
    using assms(3) by (auto dest: set_dropWhileD)
  from job_loop_vnode_frame [OF r all] hd have "est_vnode s' = est_vnode ?s1" by blast
  then show ?thesis by simp
qed

lemma actual_vnode_used:
  assumes "job_from_qstat E clock job_info = Inr (Some jb)"
    and "scanned_lines job_info = pre @ ev # post"
    and "is_attr ''exec_vnode'' ev"
    and "\<forall>l\<in>set post. \<not> is_attr ''exec_vnode'' l"
  shows "exec_vnode jb =
     clean_vnodes (attr_value ev @ concat (map py_strip (takeWhile (\<lambda>l. var_match l = None) post)))"
proof -
  from assms(1) obtain s where l: "job_loop E clock 0 (start_scan E job_info) (scanned_lines job_info) = Inr (Next s)"
    and jb: "jb = (job s)\<lparr>exec_vnode := clean_vnodes (est_vnode s)\<rparr>"
    by (rule job_from_qstat_SomeD)
  from l obtain s1 s2 where "parse_line E (clock (0 + length pre)) s1 ev = Inr (Next s2)"
    and post: "job_loop E clock (Suc (0 + length pre)) s2 post = Inr (Next s)"
    unfolding assms(2) by (rule job_loop_split)
  then have s2: "s2 = s1\<lparr>in_vnode := True, exec_vnode_seen := True, est_vnode := attr_value ev\<rparr>"
    by (simp add: parse_line_exec_vnode [OF assms(3)])
  have "est_vnode s = est_vnode s2 @ concat (map py_strip (takeWhile (\<lambda>l. var_match l = None) post))"
    using assms(4) s2 by (intro collected_field [OF post]) auto
  with s2 jb show ?thesis by simp
qed

lemma estimated_vnode_used:
  assumes "job_from_qstat E clock job_info = Inr (Some jb)"
    and "scanned_lines job_info = pre @ est # post"
    and "is_attr ''estimated.exec_vnode'' est"
    and "\<forall>l\<in>set post. \<not> is_attr ''estimated.exec_vnode'' l"
    and "\<forall>l\<in>set (scanned_lines job_info). \<not> is_attr ''exec_vnode'' l"
  shows "exec_vnode jb =
     clean_vnodes (attr_value est @ concat (map py_strip (takeWhile (\<lambda>l. var_match l = None) post)))"
proof -
  from assms(1) obtain s where l: "job_loop E clock 0 (start_scan E job_info) (scanned_lines job_info) = Inr (Next s)"
    and jb: "jb = (job s)\<lparr>exec_vnode := clean_vnodes (est_vnode s)\<rparr>"
    by (rule job_from_qstat_SomeD)
  from l obtain s1 s2 where pre: "job_loop E clock 0 (start_scan E job_info) pre = Inr (Next s1)"
    and p: "parse_line E (clock (0 + length pre)) s1 est = Inr (Next s2)"
    and post: "job_loop E clock (Suc (0 + length pre)) s2 post = Inr (Next s)"
    unfolding assms(2) by (rule job_loop_split)
  have "\<forall>l\<in>set pre. \<not> is_attr ''exec_vnode'' l" using assms(5) unfolding assms(2) by simp
  from job_loop_seen_frame [OF pre this] have ns: "\<not> exec_vnode_seen s1" by (simp add: start_scan_def)
  from p have s2: "s2 = s1\<lparr>in_vnode := True, est_vnode := attr_value est\<rparr>"
    by (simp add: parse_line_estimated_vnode [OF assms(3) ns])
  have "\<forall>l\<in>set post. \<not> is_attr ''exec_vnode'' l" using assms(5) unfolding assms(2) by simp
  then have "est_vnode s = est_vnode s2 @ concat (map py_strip (takeWhile (\<lambda>l. var_match l = None) post))"
    using assms(4) s2 by (intro collected_field [OF post]) auto
  with s2 jb show ?thesis by simp
qed

section \<open>The job id\<close>




section \<open>Jobs of another queue\<close>

lemma not_None_jobs_drop: "not_None_jobs (rs @ None # rs') = not_None_jobs rs @ not_None_jobs rs'"
  by (simp add: not_None_jobs_def)

lemma job_loop_filtered:
  assumes "\<forall>l\<in>set pre. \<not> line_raises l" and "line_filtered E ql"
  shows "job_loop E clock k s (pre @ ql # post) = Inr Return_None"
proof -
  obtain r where r: "job_loop E clock k s pre = Inr r"
    using job_loop_no_raise [OF assms(1)] by blast
  show ?thesis
  proof (cases r)
    case (Next s')
    with r show ?thesis
      by (simp add: job_loop_append parse_line_queue_other [OF assms(2)])
  next
    case Return_None
    with r show ?thesis by (simp add: job_loop_append)
  qed
qed

text \<open>
  Claim C2, as the code has it. The loop walks every line of the block but the first and
  the last. When one of these lines is a queue attribute whose value does not contain
  \<^verbatim>\<open>NODE_TYPE\<close>, and no line walked before it raises (a node count that is not an
  integer, a walltime that is not a time span), \<^verbatim>\<open>job_from_qstat\<close> returns \<^verbatim>\<open>None\<close>,
  whatever the other lines hold; the caller's comprehension leaves that \<^verbatim>\<open>None\<close> out.
\<close>

theorem other_queue_returns_None:
  assumes "scanned_lines job_info = pre @ ql # post"
    and "is_attr ''queue'' ql"
    and "\<not> sublist (NODE_TYPE E) (attr_value ql)"
    and "\<forall>l\<in>set pre. \<not> line_raises l"
  shows "job_from_qstat E clock job_info = Inr None
       \<and> not_None_jobs (rs @ None # rs') = not_None_jobs rs @ not_None_jobs rs'"
proof -
  have "line_filtered E ql" using assms(2,3) by (simp add: line_filtered_def)
  then have "job_loop E clock 0 (start_scan E job_info) (scanned_lines job_info) = Inr Return_None"
    unfolding assms(1) using assms(4) by (intro job_loop_filtered)
  then show ?thesis by (simp add: job_from_qstat_def not_None_jobs_drop)
qed

theorem other_queue_returns_None_witness:
  "job_from_qstat demo_env demo_clock
     ''Job Id: 1.pbs\<newline>    Job_Name = a\<newline>    queue = workq\<newline>    Resource_List.nodect = many\<newline>    project = p'' = Inr None"
proof -
  let ?b = "''Job Id: 1.pbs\<newline>    Job_Name = a\<newline>    queue = workq\<newline>    Resource_List.nodect = many\<newline>    project = p''"
  have 1: "scanned_lines ?b = [''    Job_Name = a''] @ ''    queue = workq'' # [''    Resource_List.nodect = many'']"
    by code_simp
  have 2: "is_attr ''queue'' ''    queue = workq''" by code_simp
  have v: "attr_value ''    queue = workq'' = ''workq''" by code_simp
  have "py_find ''workq'' ''xfua'' = - 1" by code_simp
  then have "\<not> sublist ''xfua'' ''workq''" by (rule py_find_absent [THEN iffD1])
  then have 3: "\<not> sublist (NODE_TYPE demo_env) (attr_value ''    queue = workq'')"
    unfolding v by (simp add: demo_env_def)
  have "\<not> line_raises ''    Job_Name = a''" by code_simp
  then have 4: "\<forall>l\<in>set [''    Job_Name = a'']. \<not> line_raises l" by simp
  from other_queue_returns_None [OF 1 2 3 4] show ?thesis by simp
qed

text \<open>
  Read for every block and regardless of the other fields, the claim fails: here the
  queue is another one, and the call raises at the node count that precedes it.
\<close>

theorem other_queue_raises_counterexample:
  "job_from_qstat demo_env demo_clock
     ''Job Id: 1.pbs\<newline>    Resource_List.nodect = many\<newline>    queue = workq\<newline>    project = p'' = Inl ValueError"
  by code_simp

section \<open>Start time: stime and its estimate\<close>




section \<open>Timestamps that do not parse\<close>






section \<open>Actual and estimated node assignment\<close>

text \<open>
  Claim C4, as the code has it. The loop walks every line of the block but the first and
  the last. A block none of whose walked lines is a queue of another node type or a
  malformed node count or walltime yields a record. Among the walked lines, let \<open>a\<close> be
  an attribute line with no \<^verbatim>\<open>exec_vnode\<close> line after it. If \<open>a\<close> is an \<^verbatim>\<open>exec_vnode\<close> line
  (the last one, then), the node list of the record is read from that field, its value
  and continuation lines, wherever \<^verbatim>\<open>estimated.exec_vnode\<close> lines stand, before it or after
  it. If no walked line is an \<^verbatim>\<open>exec_vnode\<close> line and \<open>a\<close> is the last
  \<^verbatim>\<open>estimated.exec_vnode\<close> line, the node list is read from that field.
\<close>

theorem actual_assignment_first:
  assumes "scanned_lines job_info = pre @ a # post"
    and "\<forall>l\<in>set post. \<not> is_attr ''exec_vnode'' l"
  shows "((\<forall>x\<in>set (scanned_lines job_info). \<not> line_raises x \<and> \<not> line_filtered E x)
            \<longrightarrow> (\<exists>jb. job_from_qstat E clock job_info = Inr (Some jb)))
       \<and> (\<forall>jb. job_from_qstat E clock job_info = Inr (Some jb) \<longrightarrow>
            (is_attr ''exec_vnode'' a \<longrightarrow> exec_vnode jb = clean_vnodes (field_text a post))
          \<and> (is_attr ''estimated.exec_vnode'' a
                \<and> (\<forall>l\<in>set pre. \<not> is_attr ''exec_vnode'' l)
                \<and> (\<forall>l\<in>set post. \<not> is_attr ''estimated.exec_vnode'' l)
              \<longrightarrow> exec_vnode jb = clean_vnodes (field_text a post)))"
proof -
  have returns: "\<exists>jb. job_from_qstat E clock job_info = Inr (Some jb)"
    if "\<forall>x\<in>set (scanned_lines job_info). \<not> line_raises x \<and> \<not> line_filtered E x"
    using job_loop_completes [OF that, of clock 0 "start_scan E job_info"]
    by (auto simp: job_from_qstat_def)
  have actual: "exec_vnode jb = clean_vnodes (field_text a post)"
    if r: "job_from_qstat E clock job_info = Inr (Some jb)" and "is_attr ''exec_vnode'' a" for jb
    using actual_vnode_used [OF r assms(1) that(2) assms(2)] by (simp add: field_text_def)
  have estimated: "exec_vnode jb = clean_vnodes (field_text a post)"
    if r: "job_from_qstat E clock job_info = Inr (Some jb)"
      and h: "is_attr ''estimated.exec_vnode'' a
            \<and> (\<forall>l\<in>set pre. \<not> is_attr ''exec_vnode'' l)
            \<and> (\<forall>l\<in>set post. \<not> is_attr ''estimated.exec_vnode'' l)" for jb
  proof -
    from h have "\<not> is_attr ''exec_vnode'' a" using is_attr_unique by fastforce
    with h assms(2) have "\<forall>l\<in>set (scanned_lines job_info). \<not> is_attr ''exec_vnode'' l"
      unfolding assms(1) by auto
    from estimated_vnode_used [OF r assms(1) _ _ this] h
    show ?thesis by (simp add: field_text_def)
  qed
  from returns actual estimated show ?thesis by blast
qed

theorem actual_assignment_first_witness:
  "map_sum id (map_option exec_vnode)
     (job_from_qstat demo_env demo_clock
        ''Job Id: 1.pbs\<newline>    estimated.exec_vnode = (e1:ncpus=1)\<newline>    exec_vnode = (a1:ncpus=2)+(a2:\<newline>	ncpus=2)\<newline>    queue = xfua\<newline>    project = p'')
     = Inr (Some [''a1'', ''a2''])
   \<and> map_sum id (map_option exec_vnode)
     (job_from_qstat demo_env demo_clock
        ''Job Id: 1.pbs\<newline>    exec_vnode = (a1:ncpus=2)+(a2:\<newline>	ncpus=2)\<newline>    estimated.exec_vnode = (e1:ncpus=1)\<newline>    queue = xfua\<newline>    project = p'')
     = Inr (Some [''a1'', ''a2''])
   \<and> map_sum id (map_option exec_vnode)
     (job_from_qstat demo_env demo_clock
        ''Job Id: 1.pbs\<newline>    queue = xfua\<newline>    estimated.exec_vnode = (e1:ncpus=1)\<newline>    project = p'')
     = Inr (Some [''e1''])"
proof -
  let ?b1 = "''Job Id: 1.pbs\<newline>    estimated.exec_vnode = (e1:ncpus=1)\<newline>    exec_vnode = (a1:ncpus=2)+(a2:\<newline>	ncpus=2)\<newline>    queue = xfua\<newline>    project = p''"
  let ?b2 = "''Job Id: 1.pbs\<newline>    exec_vnode = (a1:ncpus=2)+(a2:\<newline>	ncpus=2)\<newline>    estimated.exec_vnode = (e1:ncpus=1)\<newline>    queue = xfua\<newline>    project = p''"
  let ?b3 = "''Job Id: 1.pbs\<newline>    queue = xfua\<newline>    estimated.exec_vnode = (e1:ncpus=1)\<newline>    project = p''"
  let ?j = "\<lambda>ns. \<lparr>job_id = Id_text ''1.pbs'', job_name = [], job_state = [], job_owner = [], queue = ''xfua'',
      nodect = 0, walltime = 0, eligible_time = 7, exec_vnode = ns, start_time = 8\<rparr>"
  let ?a = "''    exec_vnode = (a1:ncpus=2)+(a2:''"
  let ?e = "''    estimated.exec_vnode = (e1:ncpus=1)''"
  have r1: "job_from_qstat demo_env demo_clock ?b1 = Inr (Some (?j [''a1'', ''a2'']))" by code_simp
  have r2: "job_from_qstat demo_env demo_clock ?b2 = Inr (Some (?j [''a1'', ''a2'']))" by code_simp
  have r3: "job_from_qstat demo_env demo_clock ?b3 = Inr (Some (?j [''e1'']))" by code_simp
  have l1: "scanned_lines ?b1 = [?e] @ ?a # [''	ncpus=2)'', ''    queue = xfua'']" by code_simp
  have l3: "scanned_lines ?b3 = [''    queue = xfua''] @ ?e # []" by code_simp
  have n1: "\<forall>l\<in>set [''	ncpus=2)'', ''    queue = xfua'']. \<not> is_attr ''exec_vnode'' l" by code_simp
  have a1: "is_attr ''exec_vnode'' ?a" by code_simp
  have f1: "clean_vnodes (field_text ?a [''	ncpus=2)'', ''    queue = xfua'']) = [''a1'', ''a2'']"
    by code_simp
  have e3: "is_attr ''estimated.exec_vnode'' ?e \<and> (\<forall>l\<in>set [''    queue = xfua'']. \<not> is_attr ''exec_vnode'' l)
            \<and> (\<forall>l\<in>set []. \<not> is_attr ''estimated.exec_vnode'' l)" by code_simp
  have f3: "clean_vnodes (field_text ?e []) = [''e1'']" by code_simp
  have c1: "\<forall>x\<in>set (scanned_lines ?b1). \<not> line_raises x \<and> \<not> line_filtered demo_env x"
    by code_simp
  note t1 = actual_assignment_first [OF l1 n1, of demo_env demo_clock]
  from t1 [THEN conjunct1, THEN mp, OF c1] obtain jb where
    jb: "job_from_qstat demo_env demo_clock ?b1 = Inr (Some jb)" by blast
  from t1 [THEN conjunct2, THEN spec, THEN mp, OF jb, THEN conjunct1, THEN mp, OF a1] f1
  have "exec_vnode jb = [''a1'', ''a2'']" by simp
  with jb have v1: "map_sum id (map_option exec_vnode) (job_from_qstat demo_env demo_clock ?b1)
      = Inr (Some [''a1'', ''a2''])" by simp
  have n3: "\<forall>l\<in>set []. \<not> is_attr ''exec_vnode'' l" by simp
  from actual_assignment_first [OF l3 n3, of demo_env demo_clock,
      THEN conjunct2, THEN spec, THEN mp, OF r3, THEN conjunct2, THEN mp, OF e3] f3
  have "exec_vnode (?j [''e1'']) = [''e1'']" by simp
  with v1 show ?thesis unfolding r2 r3 by simp
qed

text \<open>
  Read for every block, the claim fails on the last line, which the loop never reaches:
  an \<^verbatim>\<open>exec_vnode\<close> line that ends the block is not read, and the node list comes from the
  estimated assignment before it.
\<close>

theorem actual_assignment_last_line_counterexample:
  "map_sum id (map_option exec_vnode)
     (job_from_qstat demo_env demo_clock
        ''Job Id: 1.pbs\<newline>    queue = xfua\<newline>    estimated.exec_vnode = (e1:ncpus=1)\<newline>    exec_vnode = (a1:ncpus=2)'')
     = Inr (Some [''e1''])
   \<and> scanned_lines
        ''Job Id: 1.pbs\<newline>    queue = xfua\<newline>    estimated.exec_vnode = (e1:ncpus=1)\<newline>    exec_vnode = (a1:ncpus=2)''
     = [''    queue = xfua'', ''    estimated.exec_vnode = (e1:ncpus=1)'']"
  by code_simp

section \<open>Node names of an assignment\<close>

lemma strip_where_decompose:
  "s = takeWhile p s @ strip_where p s @ rev (takeWhile p (rev (dropWhile p s)))"
proof -
  let ?d = "dropWhile p s"
  have "rev (dropWhile p (rev ?d)) @ rev (takeWhile p (rev ?d))
      = rev (takeWhile p (rev ?d) @ dropWhile p (rev ?d))" by (simp only: rev_append)
  also have "\<dots> = rev (rev ?d)" by (simp only: takeWhile_dropWhile_id)
  also have "\<dots> = ?d" by (simp only: rev_rev_ident)
  finally have "takeWhile p s @ rev (dropWhile p (rev ?d)) @ rev (takeWhile p (rev ?d)) = s"
    by simp
  then show ?thesis unfolding strip_where_def by simp
qed

lemma strip_where_ends:
  assumes "strip_where p s \<noteq> []"
  shows "\<not> p (hd (strip_where p s))" "\<not> p (last (strip_where p s))"
proof -
  let ?d = "dropWhile p s"
  let ?n = "strip_where p s"
  have n: "?n = rev (dropWhile p (rev ?d))" by (simp add: strip_where_def)
  with assms have ne: "dropWhile p (rev ?d) \<noteq> []" by simp
  then have "\<not> p (hd (dropWhile p (rev ?d)))" by (rule hd_dropWhile)
  then show "\<not> p (last ?n)" using ne unfolding n by (simp add: last_rev)
  have d: "?d = ?n @ rev (takeWhile p (rev ?d))"
    using strip_where_decompose [of s p] by (metis same_append_eq takeWhile_dropWhile_id)
  with assms have "?d \<noteq> []" by (metis Nil_is_append_conv)
  then have "\<not> p (hd ?d)" by (rule hd_dropWhile)
  moreover have "hd ?d = hd ?n" using assms d by (metis hd_append2)
  ultimately show "\<not> p (hd ?n)" by simp
qed

lemma all_same_replicate: "\<forall>x\<in>set xs. x = c \<Longrightarrow> xs = replicate (length xs) c"
  by (induction xs) auto

lemma py_strip_chars_paren:
  "\<exists>a b. t = replicate a CHR ''('' @ py_strip_chars ''('' t @ replicate b CHR ''(''"
proof -
  let ?p = "\<lambda>c. c \<in> set ''(''"
  have 1: "takeWhile ?p t = replicate (length (takeWhile ?p t)) CHR ''(''"
    by (rule all_same_replicate) (auto dest: set_takeWhileD)
  have 2: "rev (takeWhile ?p (rev (dropWhile ?p t)))
      = replicate (length (rev (takeWhile ?p (rev (dropWhile ?p t))))) CHR ''(''"
    by (rule all_same_replicate) (auto dest: set_takeWhileD)
  have "t = takeWhile ?p t @ py_strip_chars ''('' t @ rev (takeWhile ?p (rev (dropWhile ?p t)))"
    unfolding py_strip_chars_def by (rule strip_where_decompose)
  with 1 2 show ?thesis by metis
qed

lemma py_strip_chars_paren_ends:
  "\<not> prefix ''('' (py_strip_chars ''('' t)" "\<not> suffix ''('' (py_strip_chars ''('' t)"
proof -
  let ?p = "\<lambda>c. c \<in> set ''(''"
  let ?n = "py_strip_chars ''('' t"
  show "\<not> prefix ''('' ?n"
  proof
    assume "prefix ''('' ?n"
    then obtain r where r: "?n = CHR ''('' # r" by (auto simp: prefix_def)
    then have "?n \<noteq> []" by simp
    then have "\<not> ?p (hd ?n)" unfolding py_strip_chars_def by (rule strip_where_ends)
    with r show False by simp
  qed
  show "\<not> suffix ''('' ?n"
  proof
    assume "suffix ''('' ?n"
    then obtain r where r: "?n = r @ ''(''" by (auto simp: suffix_def)
    then have "?n \<noteq> []" by simp
    then have "\<not> ?p (last ?n)" unfolding py_strip_chars_def by (rule strip_where_ends)
    with r show False by simp
  qed
qed

lemma length_one_empty: "(length xs = 1 \<and> xs ! 0 = []) = (xs = [[]])"
  by (cases xs) auto

text \<open>
  Claim C3, as the code has it. The field is cut at every plus sign; of each entry the
  text before the first colon is kept, with every opening parenthesis at its start and at
  its end removed (\<open>t\<close> is that text with some parentheses in front and some behind, and
  what is kept neither starts nor ends with one); a result of one empty name is the empty
  list. The two examples of the specification come out as stated.
\<close>

theorem node_list_of_field:
  "clean_vnodes field =
     (let names = map (\<lambda>entry. py_strip_chars ''('' (takeWhile (\<lambda>c. c \<noteq> CHR '':'') entry))
                      (py_split ''+'' field)
      in if names = [[]] then [] else names)
   \<and> (\<exists>a b. t = replicate a CHR ''('' @ py_strip_chars ''('' t @ replicate b CHR ''('')
   \<and> \<not> prefix ''('' (py_strip_chars ''('' t) \<and> \<not> suffix ''('' (py_strip_chars ''('' t)
   \<and> clean_vnodes ''(nodeA:ncpus=2)+(nodeB:ncpus=4)'' = [''nodeA'', ''nodeB'']
   \<and> clean_vnodes [] = []"
proof -
  have 1: "clean_vnodes field =
     (let names = map (\<lambda>entry. py_strip_chars ''('' (takeWhile (\<lambda>c. c \<noteq> CHR '':'') entry))
                      (py_split ''+'' field)
      in if names = [[]] then [] else names)"
    unfolding clean_vnodes_def hd_py_split_char length_one_empty ..
  have 2: "clean_vnodes ''(nodeA:ncpus=2)+(nodeB:ncpus=4)'' = [''nodeA'', ''nodeB'']" by code_simp
  have 3: "clean_vnodes [] = []" by code_simp
  from 1 2 3 py_strip_chars_paren [of t] py_strip_chars_paren_ends [of t] show ?thesis by blast
qed

text \<open>
  With only a leading parenthesis removed, as the claim words it, this entry would keep
  the name \<open>n1(\<close>; the code returns \<open>n1\<close>.
\<close>

theorem node_list_trailing_paren_counterexample:
  "clean_vnodes ''(n1(:ncpus=2)'' = [''n1''] \<and> spec_node_list ''(n1(:ncpus=2)'' = [''n1('']"
  by code_simp

section \<open>Rows collapse to runs\<close>

lemma concat_groupby: "concat (map snd (groupby key xs)) = xs"
  by (induction key xs rule: groupby.induct) simp_all

lemma takeWhile_enumerate:
  "takeWhile P (enumerate k ys) = enumerate k (take (length (takeWhile P (enumerate k ys))) ys)"
proof -
  have "takeWhile P (enumerate k ys) = take (length (takeWhile P (enumerate k ys))) (enumerate k ys)"
    by (rule takeWhile_eq_take)
  also have "\<dots> = enumerate k (take (length (takeWhile P (enumerate k ys))) ys)"
    by (simp add: enumerate_eq_zip take_zip min_def length_takeWhile_le)
  finally show ?thesis .
qed

lemma dropWhile_enumerate:
  "dropWhile P (enumerate k ys)
     = enumerate (k + length (takeWhile P (enumerate k ys)))
         (drop (length (takeWhile P (enumerate k ys))) ys)"
proof -
  have "dropWhile P (enumerate k ys) = drop (length (takeWhile P (enumerate k ys))) (enumerate k ys)"
    by (rule dropWhile_eq_drop)
  also have "\<dots> = enumerate (k + length (takeWhile P (enumerate k ys)))
         (drop (length (takeWhile P (enumerate k ys))) ys)"
    using length_takeWhile_le [of P "enumerate k ys"]
    by (simp add: enumerate_eq_zip drop_zip)
  finally show ?thesis .
qed

lemma runs_from_Nil: "runs_from k [] = []"
  by (simp add: runs_from_def)

lemma runs_from_Cons:
  fixes y :: int
  assumes "m = length (takeWhile (\<lambda>(c, n). n - int c = y - int k) (enumerate (Suc k) ys))"
  shows "runs_from k (y # ys) = (y # take m ys) # runs_from (Suc k + m) (drop m ys)"
proof -
  let ?key = "\<lambda>(c, n). n - int c"
  let ?P = "\<lambda>(c, n). n - int c = y - int k"
  have P: "(\<lambda>p. ?key p = ?key (k, y)) = ?P" by auto
  have tw: "takeWhile ?P (enumerate (Suc k) ys) = enumerate (Suc k) (take m ys)"
    unfolding assms by (rule takeWhile_enumerate)
  have dw: "dropWhile ?P (enumerate (Suc k) ys) = enumerate (Suc k + m) (drop m ys)"
    unfolding assms by (rule dropWhile_enumerate)
  have "groupby ?key (enumerate k (y # ys))
      = (?key (k, y), (k, y) # takeWhile ?P (enumerate (Suc k) ys))
          # groupby ?key (dropWhile ?P (enumerate (Suc k) ys))"
    by (simp only: enumerate_simps groupby.simps P)
  then show ?thesis
    unfolding runs_from_def tw dw by simp
qed

lemma concat_runs_from: "concat (runs_from k ys) = ys"
proof -
  have "concat (runs_from k ys) = map snd (concat (map snd (groupby (\<lambda>(c, n). n - int c) (enumerate k ys))))"
    by (simp add: runs_from_def map_concat case_prod_unfold comp_def)
  then show ?thesis by (simp add: concat_groupby)
qed

lemma upto_by_nth:
  assumes "\<forall>j<length zs. zs ! j = a + int j"
  shows "zs = [a..a + int (length zs) - 1]"
proof (rule nth_equalityI)
  show "length zs = length [a..a + int (length zs) - 1]" by simp
next
  fix i assume "i < length zs"
  then show "zs ! i = [a..a + int (length zs) - 1] ! i" using assms by (simp add: nth_upto)
qed

lemma last_upto_int: "i \<le> j \<Longrightarrow> last [i..j] = j"
  by (simp add: upto_rec2)

lemma runs_from_maximal:
  assumes "sorted_wrt (<) ys"
  shows "maximal_runs (runs_from k ys)
       \<and> (ys \<noteq> [] \<longrightarrow> runs_from k ys \<noteq> [] \<and> hd (hd (runs_from k ys)) = hd ys)"
  using assms
proof (induction "length ys" arbitrary: k ys rule: less_induct)
  case less
  show ?case
  proof (cases ys)
    case Nil
    then show ?thesis by (simp add: runs_from_Nil)
  next
    case (Cons y ys')
    let ?P = "\<lambda>(c, n). n - int c = y - int k"
    define m where "m = length (takeWhile ?P (enumerate (Suc k) ys'))"
    have m_le: "m \<le> length ys'"
      unfolding m_def using length_takeWhile_le [of ?P "enumerate (Suc k) ys'"] by simp
    have rf: "runs_from k ys = (y # take m ys') # runs_from (Suc k + m) (drop m ys')"
      unfolding Cons by (rule runs_from_Cons) (rule m_def)
    let ?r = "y # take m ys'"
    have in_run: "ys' ! j = y + 1 + int j" if "j < m" for j
    proof -
      from that have j: "j < length (takeWhile ?P (enumerate (Suc k) ys'))" by (simp add: m_def)
      then have "takeWhile ?P (enumerate (Suc k) ys') ! j \<in> set (takeWhile ?P (enumerate (Suc k) ys'))"
        by (rule nth_mem)
      then have "?P (takeWhile ?P (enumerate (Suc k) ys') ! j)" by (rule set_takeWhileD [THEN conjunct2])
      moreover have "takeWhile ?P (enumerate (Suc k) ys') ! j = enumerate (Suc k) ys' ! j"
        using j by (rule takeWhile_nth)
      moreover have "enumerate (Suc k) ys' ! j = (Suc k + j, ys' ! j)"
        using that m_le by (simp add: nth_enumerate_eq)
      ultimately show ?thesis by simp
    qed
    have len_r: "length ?r = Suc m" using m_le by simp
    have "\<forall>j<length ?r. ?r ! j = y + int j"
    proof (intro allI impI)
      fix j assume "j < length ?r"
      then have "j < Suc m" using len_r by simp
      then show "?r ! j = y + int j" using in_run [of "j - 1"] by (cases j) auto
    qed
    then have "?r = [y..y + int (length ?r) - 1]" by (rule upto_by_nth)
    then have r_eq: "?r = [y..y + int m]" unfolding len_r by simp
    have last_r: "last ?r = y + int m"
      using last_upto_int [of y "y + int m"] r_eq by simp
    have "hd ?r = y" by simp
    then have "[hd ?r..last ?r] = [y..y + int m]" by (simp only: last_r)
    then have "?r = [hd ?r..last ?r]" using r_eq by (simp only:)
    then have cont: "contiguous ?r"
      unfolding contiguous_def by blast
    have sorted_rest: "sorted_wrt (<) (drop m ys')"
      using less.prems unfolding Cons by (simp add: sorted_wrt_drop)
    have ih: "maximal_runs (runs_from (Suc k + m) (drop m ys'))
       \<and> (drop m ys' \<noteq> [] \<longrightarrow> runs_from (Suc k + m) (drop m ys') \<noteq> []
            \<and> hd (hd (runs_from (Suc k + m) (drop m ys'))) = hd (drop m ys'))"
      using sorted_rest by (intro less.hyps) (simp add: Cons)
    have first: "runs_from k ys \<noteq> [] \<and> hd (hd (runs_from k ys)) = hd ys"
      unfolding rf by (simp add: Cons)
    have "maximal_runs (runs_from k ys)"
    proof (cases "drop m ys' = []")
      case True
      then show ?thesis unfolding rf using cont by (simp add: runs_from_Nil)
    next
      case False
      then have m_lt: "m < length ys'" by simp
      let ?z = "ys' ! m"
      have hd_rest: "hd (drop m ys') = ?z" using m_lt by (simp add: hd_drop_conv_nth)
      have "length (takeWhile ?P (enumerate (Suc k) ys')) < length (enumerate (Suc k) ys')"
        using m_lt by (simp add: m_def)
      then have "\<not> ?P (enumerate (Suc k) ys' ! length (takeWhile ?P (enumerate (Suc k) ys')))"
        by (rule nth_length_takeWhile)
      then have "\<not> ?P (Suc k + m, ?z)"
        using m_lt by (simp add: nth_enumerate_eq m_def [symmetric])
      then have ne: "?z \<noteq> y + int m + 1" by auto
      have "ys = ?r @ drop m ys'" unfolding Cons by simp
      then have "sorted_wrt (<) (?r @ drop m ys')" using less.prems by simp
      then have "\<forall>a\<in>set ?r. \<forall>b\<in>set (drop m ys'). a < b" by (simp only: sorted_wrt_append) blast
      moreover have "last ?r \<in> set ?r" by (rule last_in_set) simp
      moreover have "?z \<in> set (drop m ys')" using False hd_rest hd_in_set by metis
      ultimately have "last ?r < ?z" by blast
      with ne last_r have gap: "last ?r + 1 < ?z" by simp
      from ih False hd_rest obtain r' rs where rest: "runs_from (Suc k + m) (drop m ys') = r' # rs"
        and "hd r' = ?z"
        by (cases "runs_from (Suc k + m) (drop m ys')") auto
      with ih gap cont show ?thesis unfolding rf by simp
    qed
    with first show ?thesis by simp
  qed
qed

lemma run_groups_runs_from: "run_groups i_nodes = runs_from 0 (sort i_nodes)"
  by (simp add: run_groups_def runs_from_def)


lemma rectangles_append: "rectangles (xs @ ys) = rectangles xs @ rectangles ys"
  by (induction xs rule: rectangles.induct) simp_all

lemma rectangles_draw_ranges:
  assumes "draw_ranges F tstart tend colour_i j ranges = Inr drawn"
  shows "rectangles drawn =
     map (\<lambda>r. (Floating tstart, Whole (hd r), Floating (fsub F tend tstart), Whole (last r - hd r + 1)))
         ranges"
  using assms
proof (induction ranges arbitrary: drawn)
  case Nil
  then show ?case by simp
next
  case (Cons r ranges)
  from Cons.prems obtain label rest where
    l: "(if last r - hd r > 0
         then (case job_label j of Inl e \<Rightarrow> Inl e
               | Inr text \<Rightarrow> Inr [Annotate text (Floating (label_x F tstart tend))
                                 (Floating (half F (hd r + last r)))])
         else Inr []) = Inr label"
    and rest: "draw_ranges F tstart tend colour_i j ranges = Inr rest"
    and drawn: "drawn = Rectangle (Floating tstart) (Whole (hd r)) (Floating (fsub F tend tstart))
                    (Whole (last r - hd r + 1)) colour_i None # label @ rest"
    by (auto simp: Let_def split: sum.splits)
  from l have "rectangles label = []" by (auto split: if_splits sum.splits)
  with Cons.IH [OF rest] drawn show ?case by (simp add: rectangles_append)
qed

lemma job_label_text: "has_text_id j \<Longrightarrow> \<exists>text. job_label j = Inr text"
  by (auto simp: has_text_id_def job_label_def split: job_id_value.splits)

lemma job_label_fragments: "\<not> has_text_id j \<Longrightarrow> job_label j = Inl AttributeError"
  by (auto simp: has_text_id_def job_label_def split: job_id_value.splits)

lemma draw_ranges_returns:
  assumes "has_text_id j \<or> single_rows ranges"
  shows "\<exists>drawn. draw_ranges F tstart tend colour_i j ranges = Inr drawn"
  using assms
proof (induction ranges)
  case Nil
  then show ?case by simp
next
  case (Cons r ranges)
  from Cons.prems have "has_text_id j \<or> single_rows ranges"
    by (auto simp: single_rows_def)
  from Cons.IH [OF this] obtain rest where rest: "draw_ranges F tstart tend colour_i j ranges = Inr rest"
    by blast
  from Cons.prems have "(\<exists>text. job_label j = Inr text) \<or> \<not> last r - hd r > 0"
    using job_label_text by (auto simp: single_rows_def)
  then show ?case using rest by (auto simp: Let_def)
qed

lemma draw_ranges_raises:
  assumes "\<not> has_text_id j" "\<not> single_rows ranges"
  shows "draw_ranges F tstart tend colour_i j ranges = Inl AttributeError"
  using assms(2)
proof (induction ranges)
  case Nil
  then show ?case by (simp add: single_rows_def)
next
  case (Cons r ranges)
  show ?case
  proof (cases "last r - hd r > 0")
    case True
    then show ?thesis using job_label_fragments [OF assms(1)] by (simp add: Let_def)
  next
    case False
    with Cons.prems have "\<not> single_rows ranges" by (simp add: single_rows_def)
    from Cons.IH [OF this] False show ?thesis by (simp add: Let_def)
  qed
qed

text \<open>
  Claim C5, as the code has it. For row indices without repetition, in any order, the
  groups of line 178 put end to end are the sorted indices; every group is a run of
  consecutive integers, and between one group and the next at least one integer is
  missing, so no run can be made longer. When the job id is a text, or every run is a
  single row, the loop of lines 179 to 187 returns and has drawn one rectangle per group,
  from its first row to its last; with an id that is a list of fragments and a run of
  several rows it raises AttributeError at the label. The rows 2, 3, 4, 7, 9, 10 give the
  runs (2,4), (7,7), (9,10).
\<close>

theorem rows_collapse_to_runs:
  assumes "distinct i_nodes"
  shows "concat (run_groups i_nodes) = sort i_nodes
       \<and> maximal_runs (run_groups i_nodes)
       \<and> (has_text_id j \<or> single_rows (run_groups i_nodes) \<longrightarrow>
            (\<exists>drawn. draw_ranges F tstart tend colour_i j (run_groups i_nodes) = Inr drawn
               \<and> rectangles drawn =
                   map (\<lambda>r. (Floating tstart, Whole (hd r), Floating (fsub F tend tstart),
                              Whole (last r - hd r + 1)))
                       (run_groups i_nodes)))
       \<and> (\<not> (has_text_id j \<or> single_rows (run_groups i_nodes)) \<longrightarrow>
            draw_ranges F tstart tend colour_i j (run_groups i_nodes) = Inl AttributeError)
       \<and> map (\<lambda>r. (hd r, last r)) (run_groups [2, 3, 4, 7, 9, 10]) = [(2, 4), (7, 7), (9, 10)]"
proof -
  have "sorted_wrt (<) (sort i_nodes)"
    using assms by (simp add: strict_sorted_iff)
  then have 1: "maximal_runs (run_groups i_nodes)"
    unfolding run_groups_runs_from using runs_from_maximal by blast
  have 2: "concat (run_groups i_nodes) = sort i_nodes"
    unfolding run_groups_runs_from by (rule concat_runs_from)
  have 3: "map (\<lambda>r. (hd r, last r)) (run_groups [2, 3, 4, 7, 9, 10]) = [(2, 4), (7, 7), (9, 10)]"
    by code_simp
  have 4: "\<exists>drawn. draw_ranges F tstart tend colour_i j (run_groups i_nodes) = Inr drawn
               \<and> rectangles drawn =
                   map (\<lambda>r. (Floating tstart, Whole (hd r), Floating (fsub F tend tstart),
                              Whole (last r - hd r + 1)))
                       (run_groups i_nodes)"
    if "has_text_id j \<or> single_rows (run_groups i_nodes)"
  proof -
    from draw_ranges_returns [OF that, of F tstart tend colour_i] obtain drawn where
      d: "draw_ranges F tstart tend colour_i j (run_groups i_nodes) = Inr drawn" by blast
    from d rectangles_draw_ranges [OF d] show ?thesis by blast
  qed
  have 5: "draw_ranges F tstart tend colour_i j (run_groups i_nodes) = Inl AttributeError"
    if "\<not> (has_text_id j \<or> single_rows (run_groups i_nodes))"
    using that by (intro draw_ranges_raises) simp_all
  from 1 2 3 4 5 show ?thesis by blast
qed

theorem rows_collapse_to_runs_witness:
  "run_groups [9, 2, 7, 3, 10, 4] = [[2, 3, 4], [7], [9, 10]]
   \<and> concat (run_groups [9, 2, 7, 3, 10, 4]) = [2, 3, 4, 7, 9, 10]
   \<and> maximal_runs (run_groups [9, 2, 7, 3, 10, 4])
   \<and> map_sum id rectangles
        (draw_ranges symbolic_floats (Hours 5) (Hours 7) Grey knl_job (run_groups [9, 2, 7, 3, 10, 4]))
      = Inr [(Floating (Hours 5), Whole 2, Floating (Minus (Hours 7) (Hours 5)), Whole 3),
             (Floating (Hours 5), Whole 7, Floating (Minus (Hours 7) (Hours 5)), Whole 1),
             (Floating (Hours 5), Whole 9, Floating (Minus (Hours 7) (Hours 5)), Whole 2)]"
proof -
  have d: "distinct [9, 2, 7, 3, 10, 4 :: int]" by simp
  have s: "sort [9, 2, 7, 3, 10, 4 :: int] = [2, 3, 4, 7, 9, 10]" by code_simp
  have r: "run_groups [9, 2, 7, 3, 10, 4] = [[2, 3, 4], [7], [9, 10]]" by code_simp
  have t: "has_text_id knl_job" by (simp add: has_text_id_def knl_job_def)
  have f: "fsub symbolic_floats (Hours 7) (Hours 5) = Minus (Hours 7) (Hours 5)"
    by (simp add: symbolic_floats_def)
  note th = rows_collapse_to_runs [OF d, of knl_job symbolic_floats "Hours 5" "Hours 7" Grey]
  from th have c: "concat (run_groups [9, 2, 7, 3, 10, 4]) = sort [9, 2, 7, 3, 10, 4]"
    by (rule conjunct1)
  from th have m: "maximal_runs (run_groups [9, 2, 7, 3, 10, 4])"
    by (rule conjunct2 [THEN conjunct1])
  from th t obtain drawn where
    "draw_ranges symbolic_floats (Hours 5) (Hours 7) Grey knl_job (run_groups [9, 2, 7, 3, 10, 4]) = Inr drawn"
    "rectangles drawn =
       map (\<lambda>r. (Floating (Hours 5), Whole (hd r), Floating (fsub symbolic_floats (Hours 7) (Hours 5)),
                  Whole (last r - hd r + 1)))
           (run_groups [9, 2, 7, 3, 10, 4])"
    by blast
  then have "map_sum id rectangles
        (draw_ranges symbolic_floats (Hours 5) (Hours 7) Grey knl_job (run_groups [9, 2, 7, 3, 10, 4]))
      = Inr [(Floating (Hours 5), Whole 2, Floating (Minus (Hours 7) (Hours 5)), Whole 3),
             (Floating (Hours 5), Whole 7, Floating (Minus (Hours 7) (Hours 5)), Whole 1),
             (Floating (Hours 5), Whole 9, Floating (Minus (Hours 7) (Hours 5)), Whole 2)]"
    unfolding r f by simp
  with r c [unfolded s] m show ?thesis by (intro conjI)
qed

text \<open>
  Read as one rectangle per run for every job, the claim fails: for a job whose id is a
  list of fragments the rows 2 and 3 form one run, and drawing it raises.
\<close>

theorem rows_label_raises_counterexample:
  "run_groups [2, 3] = [[2, 3]]
   \<and> draw_ranges symbolic_floats (Hours 5) (Hours 7) Grey
        (knl_job\<lparr>job_id := Id_fragments [''Job Id'', '' 17'', ''pbs01'']\<rparr>) (run_groups [2, 3])
      = Inl AttributeError"
  by code_simp

section \<open>The test for memory-mode shading\<close>

lemma knl_test_raises:
  assumes "jobs \<noteq> []" "\<not> sublist ''knl'' (queue (hd jobs))"
  shows "knl_test jobs = Inl ValueError"
proof -
  from assms(2) have "py_find (queue (hd jobs)) ''knl'' = - 1" by (simp add: py_find_absent)
  then have "py_index (queue (hd jobs)) ''knl'' = Inl ValueError" by (simp add: py_index_def)
  with assms(1) show ?thesis by (simp add: knl_test_def)
qed

text \<open>
  Claim C7 against the code. With a non-empty job list whose first queue does not contain
  \<open>knl\<close>, the test of line 126 does not answer False: \<^verbatim>\<open>str.index\<close> raises ValueError,
  and \<^verbatim>\<open>plot_job_schedule\<close> ends with that exception before anything is drawn.
\<close>

theorem plot_raises_without_knl:
  assumes "jobs \<noteq> []" "\<not> sublist ''knl'' (queue (hd jobs))"
  shows "plot_job_schedule F node_type username pbsnodes clock jobs = Inl ValueError"
  using knl_test_raises [OF assms] by (simp add: plot_job_schedule_def background_def)

theorem plot_raises_without_knl_witness:
  "plot_job_schedule symbolic_floats ''xfua'' ''alice'' demo_nodes demo_now
     [knl_job\<lparr>queue := ''xfua''\<rparr>] = Inl ValueError"
proof -
  have "py_find ''xfua'' ''knl'' = - 1" by code_simp
  then have "\<not> sublist ''knl'' ''xfua''" by (rule py_find_absent [THEN iffD1])
  then have "\<not> sublist ''knl'' (queue (hd [knl_job\<lparr>queue := ''xfua''\<rparr>]))" by simp
  from plot_raises_without_knl [OF _ this] show ?thesis by simp
qed

section \<open>Job rectangles\<close>















end
